theory Spec2Isabelle
  imports Main "HOL-Library.AList"
begin

chapter \<open>The storage engine: definitions\<close>

section \<open>Machine integers and errors\<close>

text \<open>
  \<^verbatim>\<open>frame_id_t\<close> and \<open>page_id_t\<close> are 32-bit signed integers, \<^verbatim>\<open>size_t\<close> is a 64-bit
  unsigned integer. They are integers here, with the conversion and the wrap-around of
  \<^verbatim>\<open>size_t\<close> arithmetic written out.
\<close>

type_synonym frame_id_t = int
type_synonym page_id_t = int

definition is_int32 :: "int \<Rightarrow> bool" where
  "is_int32 x = (- (2 ^ 31) \<le> x \<and> x < 2 ^ 31)"

definition to_size_t :: "int \<Rightarrow> int" where
  \<comment> \<open>\<^verbatim>\<open>static_cast<size_t>(x)\<close>\<close>
  "to_size_t x = x mod 2 ^ 64"

definition INVALID_PAGE_ID :: page_id_t where
  "INVALID_PAGE_ID = - 1"

datatype error =
    InvalidFrameId      \<comment> \<open>the \<^verbatim>\<open>throw\<close> of RecordAccess and SetEvictable\<close>
  | NullPointer         \<comment> \<open>a null page pointer is dereferenced\<close>
  | IteratorOutOfRange  \<comment> \<open>the \<^verbatim>\<open>throw\<close> of the iterator's increment\<close>
  | AssertionFailed     \<comment> \<open>an \<^verbatim>\<open>assert\<close> fails\<close>
  | OutOfFuel           \<comment> \<open>a loop of the model ran longer than its bound\<close>
  | DanglingPointer     \<comment> \<open>a freed node is read or written\<close>
  | Blocked             \<comment> \<open>the thread locks a \<^verbatim>\<open>std::mutex\<close> it holds: the call does not return\<close>

definition ebind :: "error + 'a \<Rightarrow> ('a \<Rightarrow> error + 'b) \<Rightarrow> error + 'b" where
  \<comment> \<open>sequencing: an error ends the run\<close>
  "ebind m f = (case m of Inl e \<Rightarrow> Inl e | Inr x \<Rightarrow> f x)"

section \<open>The LRU-K replacer\<close>

text \<open>
  The repository holds two texts of the class \<^verbatim>\<open>LRUKReplacer\<close>. The later one, with the range
  check, the destructor and the size bookkeeping, follows the buffer pool manager in
  \<^verbatim>\<open>extendible_hash_table.cpp\<close> and is the one the buffer pool manager is written against: it
  is embedded first, under the names \<open>LRUK_...\<close>. The earlier one, in
  \<^verbatim>\<open>src/buffer/lru_k_replacer.cpp\<close>, is embedded after it, under the names \<open>Draft_...\<close>.

  The replacer keeps one doubly linked list with three sentinels,
  \<^verbatim>\<open>l_ <-> ... <-> m_ <-> ... <-> r_\<close>. The nodes between \<^verbatim>\<open>l_\<close> and \<^verbatim>\<open>m_\<close> are the list
  \<open>fifo_list\<close>, read from \<^verbatim>\<open>l_->right_\<close> rightwards; the nodes between \<^verbatim>\<open>m_\<close> and \<^verbatim>\<open>r_\<close> are
  \<open>lru_list\<close>, read from \<^verbatim>\<open>m_->right_\<close> rightwards. \<^verbatim>\<open>map_\<close> maps a frame id to its node:
  it has an entry exactly for the nodes in the list, so a lookup in \<^verbatim>\<open>map_\<close> is a search
  for the key in the two lists.
\<close>

record LinkedNode =
  key :: frame_id_t
  frequency :: nat
  evictable :: bool

definition LinkedNode_new :: "frame_id_t \<Rightarrow> LinkedNode" where
  "LinkedNode_new f = \<lparr>key = f, frequency = 1, evictable = False\<rparr>"

record LRUKReplacer =
  fifo_list :: "LinkedNode list"
  lru_list :: "LinkedNode list"
  curr_size :: int
  replacer_size :: int
  repl_k :: nat
  fifo_size :: int
  lru_size :: int

definition LRUKReplacer_new :: "int \<Rightarrow> nat \<Rightarrow> LRUKReplacer" where
  "LRUKReplacer_new num_frames k =
     \<lparr>fifo_list = [], lru_list = [], curr_size = 0, replacer_size = num_frames,
      repl_k = k, fifo_size = 0, lru_size = 0\<rparr>"

definition LRUK_Size :: "LRUKReplacer \<Rightarrow> int" where
  "LRUK_Size r = (lru_size r + fifo_size r) mod 2 ^ 64"

fun map_find :: "LinkedNode list \<Rightarrow> frame_id_t \<Rightarrow> LinkedNode option" where
  "map_find [] f = None"
| "map_find (n # ns) f = (if key n = f then Some n else map_find ns f)"

definition map_lookup :: "LRUKReplacer \<Rightarrow> frame_id_t \<Rightarrow> LinkedNode option" where
  "map_lookup r f = map_find (fifo_list r @ lru_list r) f"

definition unlink :: "frame_id_t \<Rightarrow> LinkedNode list \<Rightarrow> LinkedNode list" where
  \<comment> \<open>\<^verbatim>\<open>node->left_->right_ = node->right_; node->right_->left_ = node->left_\<close>\<close>
  "unlink f ns = filter (\<lambda>n. key n \<noteq> f) ns"

definition set_node :: "frame_id_t \<Rightarrow> LinkedNode \<Rightarrow> LinkedNode list \<Rightarrow> LinkedNode list" where
  \<comment> \<open>a write through \<^verbatim>\<open>map_[frame_id]\<close>: the node stays where it is\<close>
  "set_node f n' ns = map (\<lambda>n. if key n = f then n' else n) ns"

fun first_evictable :: "LinkedNode list \<Rightarrow> LinkedNode option" where
  "first_evictable [] = None"
| "first_evictable (n # ns) = (if evictable n then Some n else first_evictable ns)"

definition LRUK_Evict :: "LRUKReplacer \<Rightarrow> frame_id_t option \<times> LRUKReplacer" where
  \<comment> \<open>The walk starts at \<^verbatim>\<open>m_->left_\<close> and goes left; at \<^verbatim>\<open>l_\<close> it jumps to \<^verbatim>\<open>r_->left_\<close>
      and goes left until \<^verbatim>\<open>m_\<close>: the nodes are visited in the order
      \<open>rev fifo_list @ rev lru_list\<close>.\<close>
  "LRUK_Evict r =
     (if LRUK_Size r = 0 then (None, r)
      else
        (case first_evictable (rev (fifo_list r) @ rev (lru_list r)) of
           None \<Rightarrow> (None, r)
         | Some n \<Rightarrow>
             (Some (key n),
              (if repl_k r \<le> frequency n
               then r\<lparr>lru_size := (lru_size r - 1) mod 2 ^ 64\<rparr>
               else r\<lparr>fifo_size := (fifo_size r - 1) mod 2 ^ 64\<rparr>)
              \<lparr>fifo_list := unlink (key n) (fifo_list r),
               lru_list := unlink (key n) (lru_list r)\<rparr>)))"

definition LRUK_RecordAccess :: "LRUKReplacer \<Rightarrow> frame_id_t \<Rightarrow> error option \<times> LRUKReplacer" where
  "LRUK_RecordAccess r f =
     (if replacer_size r < to_size_t f then (Some InvalidFrameId, r)
      else
        (case map_lookup r f of
           Some n \<Rightarrow>
             (let n' = n\<lparr>frequency := frequency n + 1\<rparr> in
              if repl_k r \<le> frequency n'
              then (None, r\<lparr>fifo_list := unlink f (fifo_list r),
                            lru_list := n' # unlink f (lru_list r)\<rparr>)
              else (None, r\<lparr>fifo_list := set_node f n' (fifo_list r),
                            lru_list := set_node f n' (lru_list r)\<rparr>))
         | None \<Rightarrow>
             (None, r\<lparr>curr_size := (curr_size r + 1) mod 2 ^ 64,
                      fifo_list := LinkedNode_new f # fifo_list r\<rparr>)))"

definition LRUK_SetEvictable ::
  "LRUKReplacer \<Rightarrow> frame_id_t \<Rightarrow> bool \<Rightarrow> error option \<times> LRUKReplacer" where
  "LRUK_SetEvictable r f set_evictable =
     (if replacer_size r < to_size_t f then (Some InvalidFrameId, r)
      else
        (case map_lookup r f of
           None \<Rightarrow> (None, r)
         | Some n \<Rightarrow>
             (let old_flag = evictable n in
              if (set_evictable \<and> old_flag) \<or> (\<not> set_evictable \<and> \<not> old_flag) then (None, r)
              else
                (let n' = n\<lparr>evictable := set_evictable\<rparr>;
                     change = (if old_flag then - 1 else 1);
                     r' = r\<lparr>fifo_list := set_node f n' (fifo_list r),
                            lru_list := set_node f n' (lru_list r)\<rparr>
                 in if 2 \<le> frequency n
                    then (None, r'\<lparr>lru_size := (lru_size r + change) mod 2 ^ 64\<rparr>)
                    else (None, r'\<lparr>fifo_size := (fifo_size r + change) mod 2 ^ 64\<rparr>)))))"

definition LRUK_Remove :: "LRUKReplacer \<Rightarrow> frame_id_t \<Rightarrow> LRUKReplacer" where
  "LRUK_Remove r f =
     (case map_lookup r f of
        None \<Rightarrow> r
      | Some n \<Rightarrow>
          if evictable n
          then (if 2 \<le> frequency n
                then r\<lparr>lru_size := (lru_size r - 1) mod 2 ^ 64\<rparr>
                else r\<lparr>fifo_size := (fifo_size r - 1) mod 2 ^ 64\<rparr>)
               \<lparr>fifo_list := unlink f (fifo_list r), lru_list := unlink f (lru_list r)\<rparr>
          else r)"

subsection \<open>Sequences of replacer operations\<close>

datatype replacer_op =
    OpRecordAccess frame_id_t
  | OpSetEvictable frame_id_t bool
  | OpEvict
  | OpRemove frame_id_t

fun replacer_step :: "LRUKReplacer \<Rightarrow> replacer_op \<Rightarrow> LRUKReplacer" where
  "replacer_step r (OpRecordAccess f) = snd (LRUK_RecordAccess r f)"
| "replacer_step r (OpSetEvictable f b) = snd (LRUK_SetEvictable r f b)"
| "replacer_step r OpEvict = snd (LRUK_Evict r)"
| "replacer_step r (OpRemove f) = LRUK_Remove r f"

definition replacer_run :: "int \<Rightarrow> nat \<Rightarrow> replacer_op list \<Rightarrow> LRUKReplacer" where
  "replacer_run num_frames k ops = foldl replacer_step (LRUKReplacer_new num_frames k) ops"

fun op_frame_ok :: "replacer_op \<Rightarrow> bool" where
  "op_frame_ok (OpRecordAccess f) = is_int32 f"
| "op_frame_ok (OpSetEvictable f b) = is_int32 f"
| "op_frame_ok OpEvict = True"
| "op_frame_ok (OpRemove f) = is_int32 f"

definition tracked :: "LRUKReplacer \<Rightarrow> LinkedNode list" where
  "tracked r = fifo_list r @ lru_list r"

definition num_evictable :: "LRUKReplacer \<Rightarrow> nat" where
  "num_evictable r = length (filter evictable (tracked r))"

definition ecount :: "LinkedNode list \<Rightarrow> int" where
  "ecount ns = int (length (filter evictable ns))"

definition replacer_inv :: "LRUKReplacer \<Rightarrow> bool" where
  "replacer_inv r \<longleftrightarrow>
     distinct (map key (tracked r)) \<and>
     list_all (\<lambda>n. is_int32 (key n)) (tracked r) \<and>
     (lru_size r + fifo_size r - int (num_evictable r)) mod 2 ^ 64 = 0"

record history =
  clock :: nat
  first_access :: "frame_id_t \<Rightarrow> nat"
  last_access :: "frame_id_t \<Rightarrow> nat"

definition history_new :: history where
  "history_new = \<lparr>clock = 0, first_access = (\<lambda>f. 0), last_access = (\<lambda>f. 0)\<rparr>"

definition history_record :: "LRUKReplacer \<Rightarrow> history \<Rightarrow> frame_id_t \<Rightarrow> history" where
  "history_record r h f =
     (if fst (LRUK_RecordAccess r f) = None
      then h\<lparr>clock := clock h + 1,
             first_access := (if map_lookup r f = None then (first_access h)(f := clock h)
                              else first_access h),
             last_access := (last_access h)(f := clock h)\<rparr>
      else h)"

fun history_step :: "LRUKReplacer \<times> history \<Rightarrow> replacer_op \<Rightarrow> LRUKReplacer \<times> history" where
  "history_step (r, h) (OpRecordAccess f) = (replacer_step r (OpRecordAccess f), history_record r h f)"
| "history_step (r, h) x = (replacer_step r x, h)"

definition history_run :: "int \<Rightarrow> nat \<Rightarrow> replacer_op list \<Rightarrow> LRUKReplacer \<times> history" where
  "history_run num_frames k ops = foldl history_step (LRUKReplacer_new num_frames k, history_new) ops"

definition oldest_victim :: "nat \<Rightarrow> LRUKReplacer \<Rightarrow> history \<Rightarrow> frame_id_t \<Rightarrow> bool" where
  "oldest_victim K r h f =
     (let F = filter (\<lambda>n. evictable n \<and> frequency n < K) (tracked r);
          L = filter (\<lambda>n. evictable n \<and> K \<le> frequency n) (tracked r)
      in if F \<noteq> []
         then f \<in> key ` set F \<and> (\<forall>u\<in>set F. first_access h f \<le> first_access h (key u))
         else f \<in> key ` set L \<and> (\<forall>u\<in>set L. last_access h f \<le> last_access h (key u)))"

definition history_inv :: "LRUKReplacer \<Rightarrow> history \<Rightarrow> bool" where
  "history_inv r h \<longleftrightarrow>
     (\<forall>n\<in>set (tracked r). first_access h (key n) < clock h \<and> last_access h (key n) < clock h) \<and>
     sorted_wrt (\<lambda>a b. first_access h b < first_access h a) (map key (fifo_list r)) \<and>
     sorted_wrt (\<lambda>a b. last_access h b < last_access h a) (map key (lru_list r)) \<and>
     (\<forall>n\<in>set (fifo_list r). 1 \<le> frequency n \<and> frequency n < max (repl_k r) 2) \<and>
     (\<forall>n\<in>set (lru_list r). max (repl_k r) 2 \<le> frequency n)"

subsection \<open>The earlier text of the replacer\<close>

text \<open>
  \<^verbatim>\<open>src/buffer/lru_k_replacer.cpp\<close> holds the earlier text of \<^verbatim>\<open>LRUKReplacer\<close>. It differs from
  the later one in what it does, so it is embedded on its own, under names that start with
  \<open>Draft\<close>: it has no range check; \<^verbatim>\<open>SetEvictable\<close> looks at no old flag and adds one to a
  counter at every call; \<^verbatim>\<open>Evict\<close> and \<^verbatim>\<open>Remove\<close> free a node and leave its entry in \<^verbatim>\<open>map_\<close>
  and the counters as they are; the relinking sets no \<^verbatim>\<open>left_\<close> pointer of a neighbour; and
  every operation, \<^verbatim>\<open>Size()\<close> too, takes \<^verbatim>\<open>latch_\<close>, a \<^verbatim>\<open>std::mutex\<close>, on entry.

  Since the \<^verbatim>\<open>left_\<close> and \<^verbatim>\<open>right_\<close> pointers of this text do not stay inverse to each other, the
  nodes are kept in a store: an address is an index into \<open>node_store\<close>, a freed node is \<open>None\<close>
  there, and a pointer is an address or \<open>None\<close> for \<^verbatim>\<open>nullptr\<close>. A thread that locks the mutex
  it holds waits for ever: that call is \<open>Inl Blocked\<close>, it does not return.
\<close>

record DraftNode =
  node_key :: frame_id_t
  node_frequency :: nat
  left_ptr :: "nat option"
  right_ptr :: "nat option"
  node_evictable :: bool

definition DraftNode_new :: "frame_id_t \<Rightarrow> DraftNode" where
  "DraftNode_new f =
     \<lparr>node_key = f, node_frequency = 1, left_ptr = None, right_ptr = None, node_evictable = False\<rparr>"

record DraftReplacer =
  node_store :: "DraftNode option list"
  l_sentinel :: nat
  r_sentinel :: nat
  m_sentinel :: nat
  node_map :: "(frame_id_t \<times> nat) list"
  draft_curr_size :: int
  draft_replacer_size :: int
  draft_k :: nat
  draft_fifo_size :: int
  draft_lru_size :: int
  latch :: bool

definition DraftReplacer_new :: "int \<Rightarrow> nat \<Rightarrow> DraftReplacer" where
  \<comment> \<open>\<^verbatim>\<open>l_\<close>, \<^verbatim>\<open>r_\<close> and \<^verbatim>\<open>m_\<close> are allocated in this order and linked \<^verbatim>\<open>l_ <-> m_ <-> r_\<close>\<close>
  "DraftReplacer_new num_frames k =
     \<lparr>node_store = [Some ((DraftNode_new (- 1))\<lparr>right_ptr := Some 2\<rparr>),
                    Some ((DraftNode_new (- 1))\<lparr>left_ptr := Some 2\<rparr>),
                    Some ((DraftNode_new (- 1))\<lparr>left_ptr := Some 0, right_ptr := Some 1\<rparr>)],
      l_sentinel = 0, r_sentinel = 1, m_sentinel = 2, node_map = [],
      draft_curr_size = 0, draft_replacer_size = num_frames, draft_k = k,
      draft_fifo_size = 0, draft_lru_size = 0, latch = False\<rparr>"

definition deref :: "DraftNode option list \<Rightarrow> nat option \<Rightarrow> error + DraftNode" where
  \<comment> \<open>a read through a node pointer\<close>
  "deref h p =
     (case p of
        None \<Rightarrow> Inl NullPointer
      | Some a \<Rightarrow>
          if a < length h then (case h ! a of None \<Rightarrow> Inl DanglingPointer | Some n \<Rightarrow> Inr n)
          else Inl DanglingPointer)"

definition store_node ::
  "DraftNode option list \<Rightarrow> nat option \<Rightarrow> (DraftNode \<Rightarrow> DraftNode) \<Rightarrow> error + DraftNode option list" where
  \<comment> \<open>a write to a field of the node behind a pointer\<close>
  "store_node h p g =
     (case p of
        None \<Rightarrow> Inl NullPointer
      | Some a \<Rightarrow> ebind (deref h p) (\<lambda>n. Inr (h[a := Some (g n)])))"

definition draft_unlink :: "DraftNode option list \<Rightarrow> nat option \<Rightarrow> error + DraftNode option list" where
  \<comment> \<open>\<^verbatim>\<open>node->left_->right_ = node->right_; node->right_->left_ = node->left_;\<close>\<close>
  "draft_unlink h p =
     ebind (deref h p) (\<lambda>n.
     ebind (store_node h (left_ptr n) (\<lambda>x. x\<lparr>right_ptr := right_ptr n\<rparr>)) (\<lambda>h1.
     ebind (deref h1 p) (\<lambda>n1.
     store_node h1 (right_ptr n1) (\<lambda>x. x\<lparr>left_ptr := left_ptr n1\<rparr>))))"

definition draft_lock :: "DraftReplacer \<Rightarrow> error + DraftReplacer" where
  \<comment> \<open>\<^verbatim>\<open>std::lock_guard<std::mutex> lock(latch_);\<close>\<close>
  "draft_lock d = (if latch d then Inl Blocked else Inr (d\<lparr>latch := True\<rparr>))"

definition draft_unlock :: "DraftReplacer \<Rightarrow> DraftReplacer" where
  \<comment> \<open>the guard goes out of scope at a return\<close>
  "draft_unlock d = d\<lparr>latch := False\<rparr>"

definition Draft_Size :: "DraftReplacer \<Rightarrow> error + (int \<times> DraftReplacer)" where
  "Draft_Size d =
     ebind (draft_lock d) (\<lambda>d1.
     Inr ((draft_lru_size d1 + draft_fifo_size d1) mod 2 ^ 64, draft_unlock d1))"

fun Draft_Evict_loop ::
  "nat \<Rightarrow> DraftReplacer \<Rightarrow> nat option \<Rightarrow> bool \<Rightarrow> error + (frame_id_t option \<times> DraftReplacer)" where
  \<comment> \<open>the \<^verbatim>\<open>while\<close> loop of \<^verbatim>\<open>Evict\<close>; \<open>out_null\<close> says that the argument \<^verbatim>\<open>frame_id\<close> is \<^verbatim>\<open>nullptr\<close>\<close>
  "Draft_Evict_loop 0 d p out_null = Inl OutOfFuel"
| "Draft_Evict_loop (Suc fuel) d p out_null =
     ebind (deref (node_store d) p) (\<lambda>n.
       if left_ptr n = Some (m_sentinel d) then Inr (None, d)
       else if node_evictable n then
         ebind (draft_unlink (node_store d) p) (\<lambda>h1.
           if out_null then Inl NullPointer
           else
             (case p of
                None \<Rightarrow> Inl NullPointer
              | Some a \<Rightarrow> Inr (Some (node_key n), d\<lparr>node_store := h1[a := None]\<rparr>)))
       else if left_ptr n = Some (l_sentinel d) then
         ebind (deref (node_store d) (Some (r_sentinel d))) (\<lambda>r.
           Draft_Evict_loop fuel d (left_ptr r) out_null)
       else Draft_Evict_loop fuel d (left_ptr n) out_null)"

definition Draft_Evict ::
  "nat \<Rightarrow> DraftReplacer \<Rightarrow> bool \<Rightarrow> error + (frame_id_t option \<times> DraftReplacer)" where
  \<comment> \<open>\<^verbatim>\<open>Evict\<close> takes \<^verbatim>\<open>latch_\<close> and calls \<^verbatim>\<open>Size()\<close>, which takes \<^verbatim>\<open>latch_\<close>\<close>
  "Draft_Evict fuel d out_null =
     ebind (draft_lock d) (\<lambda>d1.
     ebind (Draft_Size d1) (\<lambda>r.
       if fst r = 0 then Inr (None, draft_unlock (snd r))
       else
         ebind (Draft_Evict_loop fuel (snd r) (Some (m_sentinel (snd r))) out_null) (\<lambda>r'.
           Inr (fst r', draft_unlock (snd r')))))"

definition Draft_RecordAccess :: "nat \<Rightarrow> DraftReplacer \<Rightarrow> frame_id_t \<Rightarrow> error + DraftReplacer" where
  "Draft_RecordAccess fuel d f =
     ebind (draft_lock d) (\<lambda>d1.
       (case map_of (node_map d1) f of
          Some a \<Rightarrow>
            ebind (store_node (node_store d1) (Some a)
                     (\<lambda>x. x\<lparr>node_frequency := node_frequency x + 1\<rparr>)) (\<lambda>h1.
            ebind (deref h1 (Some a)) (\<lambda>n.
              if draft_k d1 \<le> node_frequency n then
                ebind (draft_unlink h1 (Some a)) (\<lambda>h2.
                ebind (store_node h2 (Some a) (\<lambda>x. x\<lparr>left_ptr := Some (m_sentinel d1)\<rparr>)) (\<lambda>h3.
                ebind (deref h3 (Some (m_sentinel d1))) (\<lambda>m.
                ebind (store_node h3 (Some a) (\<lambda>x. x\<lparr>right_ptr := right_ptr m\<rparr>)) (\<lambda>h4.
                ebind (store_node h4 (Some (m_sentinel d1)) (\<lambda>x. x\<lparr>right_ptr := Some a\<rparr>)) (\<lambda>h5.
                Inr (draft_unlock (d1\<lparr>node_store := h5\<rparr>)))))))
              else Inr (draft_unlock (d1\<lparr>node_store := h1\<rparr>))))
        | None \<Rightarrow>
            ebind (if draft_curr_size d1 = draft_replacer_size d1
                   then ebind (Draft_Evict fuel d1 True) (\<lambda>r. Inr (snd r))
                   else Inr d1) (\<lambda>d2.
              (let a = length (node_store d2);
                   h1 = node_store d2 @ [Some (DraftNode_new f)];
                   d3 = d2\<lparr>draft_curr_size := (draft_curr_size d2 + 1) mod 2 ^ 64\<rparr>
               in ebind (store_node h1 (Some a) (\<lambda>x. x\<lparr>left_ptr := Some (l_sentinel d3)\<rparr>)) (\<lambda>h2.
                  ebind (deref h2 (Some (l_sentinel d3))) (\<lambda>l.
                  ebind (store_node h2 (Some a) (\<lambda>x. x\<lparr>right_ptr := right_ptr l\<rparr>)) (\<lambda>h3.
                  ebind (store_node h3 (Some (l_sentinel d3)) (\<lambda>x. x\<lparr>right_ptr := Some a\<rparr>)) (\<lambda>h4.
                  Inr (draft_unlock (d3\<lparr>node_store := h4,
                                         node_map := AList.update f a (node_map d3)\<rparr>))))))))))"

definition Draft_SetEvictable :: "DraftReplacer \<Rightarrow> frame_id_t \<Rightarrow> bool \<Rightarrow> error + DraftReplacer" where
  \<comment> \<open>\<^verbatim>\<open>map_[frame_id]\<close> of a frame that has no entry is \<^verbatim>\<open>nullptr\<close>\<close>
  "Draft_SetEvictable d f set_evictable =
     ebind (draft_lock d) (\<lambda>d1.
     ebind (store_node (node_store d1) (map_of (node_map d1) f)
              (\<lambda>x. x\<lparr>node_evictable := set_evictable\<rparr>)) (\<lambda>h1.
     ebind (deref h1 (map_of (node_map d1) f)) (\<lambda>n.
       if 2 \<le> node_frequency n
       then Inr (draft_unlock (d1\<lparr>node_store := h1,
                                 draft_lru_size := (draft_lru_size d1 + 1) mod 2 ^ 64\<rparr>))
       else Inr (draft_unlock (d1\<lparr>node_store := h1,
                                 draft_fifo_size := (draft_fifo_size d1 + 1) mod 2 ^ 64\<rparr>)))))"

definition Draft_Remove :: "DraftReplacer \<Rightarrow> frame_id_t \<Rightarrow> error + DraftReplacer" where
  "Draft_Remove d f =
     ebind (draft_lock d) (\<lambda>d1.
       (case map_of (node_map d1) f of
          None \<Rightarrow> Inr (draft_unlock d1)
        | Some a \<Rightarrow>
            ebind (deref (node_store d1) (Some a)) (\<lambda>n.
              if node_evictable n then
                ebind (draft_unlink (node_store d1) (Some a)) (\<lambda>h1.
                Inr (draft_unlock (d1\<lparr>node_store := h1[a := None]\<rparr>)))
              else Inr (draft_unlock d1))))"

definition draft_num_evictable :: "DraftReplacer \<Rightarrow> nat" where
  \<comment> \<open>the number of frames with an entry in \<^verbatim>\<open>map_\<close> whose node has the evictable flag set\<close>
  "draft_num_evictable d =
     length (filter (\<lambda>(f, a). case deref (node_store d) (Some a) of
                                 Inr n \<Rightarrow> node_evictable n
                               | Inl e \<Rightarrow> False) (node_map d))"

fun Draft_step :: "nat \<Rightarrow> DraftReplacer \<Rightarrow> replacer_op \<Rightarrow> error + DraftReplacer" where
  "Draft_step fuel d (OpRecordAccess f) = Draft_RecordAccess fuel d f"
| "Draft_step fuel d (OpSetEvictable f b) = Draft_SetEvictable d f b"
| "Draft_step fuel d OpEvict = ebind (Draft_Evict fuel d False) (\<lambda>r. Inr (snd r))"
| "Draft_step fuel d (OpRemove f) = Draft_Remove d f"

fun Draft_run_from :: "nat \<Rightarrow> DraftReplacer \<Rightarrow> replacer_op list \<Rightarrow> error + DraftReplacer" where
  "Draft_run_from fuel d [] = Inr d"
| "Draft_run_from fuel d (x # xs) = ebind (Draft_step fuel d x) (\<lambda>d'. Draft_run_from fuel d' xs)"

definition Draft_run :: "nat \<Rightarrow> int \<Rightarrow> nat \<Rightarrow> replacer_op list \<Rightarrow> error + DraftReplacer" where
  "Draft_run fuel num_frames k ops = Draft_run_from fuel (DraftReplacer_new num_frames k) ops"

section \<open>The extendible hash table\<close>

text \<open>
  \<^verbatim>\<open>dir_\<close> is a vector of shared pointers to buckets, and several slots may point to one
  bucket. The buckets live in \<open>heap\<close>, a list indexed by address; a shared pointer is an
  address, \<^verbatim>\<open>make_shared\<close> appends to \<open>heap\<close>. \<^verbatim>\<open>std::hash\<close> is the parameter \<open>hash\<close>.
  The bucket's \<^verbatim>\<open>size_\<close>, \<^verbatim>\<open>depth_\<close> and \<^verbatim>\<open>list_\<close> are \<open>bsize\<close>, \<open>bdepth\<close> and \<open>blist\<close>;
  \<^verbatim>\<open>IsFull\<close>, \<^verbatim>\<open>GetDepth\<close> and \<^verbatim>\<open>GetItems\<close> are the header's one-line accessors. The mask
  \<^verbatim>\<open>(1 << global_depth_) - 1\<close> keeps the low \<open>global_depth\<close> bits of the hash value.
  \<^verbatim>\<open>while (true)\<close> in \<^verbatim>\<open>Insert\<close> is a recursion on a fuel argument.
\<close>

record ('k, 'v) Bucket =
  bsize :: nat
  bdepth :: nat
  blist :: "('k \<times> 'v) list"

definition Bucket_new :: "nat \<Rightarrow> nat \<Rightarrow> ('k, 'v) Bucket" where
  "Bucket_new array_size depth = \<lparr>bsize = array_size, bdepth = depth, blist = []\<rparr>"

definition Bucket_IsFull :: "('k, 'v) Bucket \<Rightarrow> bool" where
  "Bucket_IsFull b = (length (blist b) = bsize b)"

fun list_find :: "('k \<times> 'v) list \<Rightarrow> 'k \<Rightarrow> 'v option" where
  "list_find [] k = None"
| "list_find ((k', v) # xs) k = (if k' = k then Some v else list_find xs k)"

definition Bucket_Find :: "('k, 'v) Bucket \<Rightarrow> 'k \<Rightarrow> 'v option" where
  "Bucket_Find b k = list_find (blist b) k"

fun list_erase :: "('k \<times> 'v) list \<Rightarrow> 'k \<Rightarrow> ('k \<times> 'v) list" where
  "list_erase [] k = []"
| "list_erase ((k', v) # xs) k = (if k' = k then xs else (k', v) # list_erase xs k)"

definition Bucket_Remove :: "('k, 'v) Bucket \<Rightarrow> 'k \<Rightarrow> bool \<times> ('k, 'v) Bucket" where
  "Bucket_Remove b k =
     (if list_find (blist b) k = None then (False, b)
      else (True, b\<lparr>blist := list_erase (blist b) k\<rparr>))"

fun list_assign :: "('k \<times> 'v) list \<Rightarrow> 'k \<Rightarrow> 'v \<Rightarrow> ('k \<times> 'v) list" where
  "list_assign [] k v = []"
| "list_assign ((k', v') # xs) k v = (if k' = k then (k', v) # xs else (k', v') # list_assign xs k v)"

definition Bucket_Insert :: "('k, 'v) Bucket \<Rightarrow> 'k \<Rightarrow> 'v \<Rightarrow> bool \<times> ('k, 'v) Bucket" where
  "Bucket_Insert b k v =
     (if list_find (blist b) k \<noteq> None then (True, b\<lparr>blist := list_assign (blist b) k v\<rparr>)
      else if Bucket_IsFull b then (False, b)
      else (True, b\<lparr>blist := blist b @ [(k, v)]\<rparr>))"

record ('k, 'v) ExtendibleHashTable =
  global_depth :: nat
  bucket_size :: nat
  num_buckets :: nat
  dir :: "nat list"
  heap :: "('k, 'v) Bucket list"

definition ExtendibleHashTable_new :: "nat \<Rightarrow> ('k, 'v) ExtendibleHashTable" where
  "ExtendibleHashTable_new bucket_sz =
     \<lparr>global_depth = 0, bucket_size = bucket_sz, num_buckets = 1, dir = [0],
      heap = [Bucket_new bucket_sz 0]\<rparr>"

definition IndexOf :: "('k \<Rightarrow> nat) \<Rightarrow> ('k, 'v) ExtendibleHashTable \<Rightarrow> 'k \<Rightarrow> nat" where
  "IndexOf hash t k = hash k mod 2 ^ global_depth t"

definition GetGlobalDepth :: "('k, 'v) ExtendibleHashTable \<Rightarrow> nat" where
  "GetGlobalDepth t = global_depth t"

definition GetLocalDepth :: "('k, 'v) ExtendibleHashTable \<Rightarrow> nat \<Rightarrow> nat" where
  "GetLocalDepth t dir_index = bdepth (heap t ! (dir t ! dir_index))"

definition GetNumBuckets :: "('k, 'v) ExtendibleHashTable \<Rightarrow> nat" where
  "GetNumBuckets t = num_buckets t"

definition EHT_Find :: "('k \<Rightarrow> nat) \<Rightarrow> ('k, 'v) ExtendibleHashTable \<Rightarrow> 'k \<Rightarrow> 'v option" where
  "EHT_Find hash t k =
     (let index = IndexOf hash t k in
      if length (dir t) \<le> index then None
      else Bucket_Find (heap t ! (dir t ! index)) k)"

definition EHT_Remove ::
  "('k \<Rightarrow> nat) \<Rightarrow> ('k, 'v) ExtendibleHashTable \<Rightarrow> 'k \<Rightarrow> bool \<times> ('k, 'v) ExtendibleHashTable" where
  "EHT_Remove hash t k =
     (let index = IndexOf hash t k in
      if length (dir t) \<le> index then (False, t)
      else
        (let a = dir t ! index; (found, b) = Bucket_Remove (heap t ! a) k
         in (found, t\<lparr>heap := (heap t)[a := b]\<rparr>)))"

definition reassign_dir :: "nat \<Rightarrow> nat \<Rightarrow> nat \<Rightarrow> nat \<Rightarrow> nat \<Rightarrow> nat list \<Rightarrow> nat list" where
  "reassign_dir cnt cur_local_depth offset bucket1 bucket2 d =
     fold (\<lambda>i d. d[i * 2 ^ cur_local_depth + offset := (if even i then bucket1 else bucket2)])
       [0..<cnt] d"

definition redistribute ::
  "('k \<Rightarrow> nat) \<Rightarrow> ('k \<times> 'v) list \<Rightarrow> ('k, 'v) ExtendibleHashTable \<Rightarrow> ('k, 'v) ExtendibleHashTable" where
  "redistribute hash list_temp t =
     fold (\<lambda>(k, v) t.
             (let a = dir t ! IndexOf hash t k
              in t\<lparr>heap := (heap t)[a := snd (Bucket_Insert (heap t ! a) k v)]\<rparr>))
       list_temp t"

definition EHT_split ::
  "('k \<Rightarrow> nat) \<Rightarrow> ('k, 'v) ExtendibleHashTable \<Rightarrow> nat \<Rightarrow> ('k, 'v) ExtendibleHashTable" where
  \<comment> \<open>the body of \<^verbatim>\<open>if (cur_bucket->IsFull())\<close>: the directory doubles when the bucket's depth is
      the global depth, then the bucket is split\<close>
  "EHT_split hash t index =
     (let cur_bucket = heap t ! (dir t ! index);
          cur_local_depth = bdepth cur_bucket;
          t1 = (if global_depth t = cur_local_depth
                then t\<lparr>global_depth := global_depth t + 1, dir := dir t @ dir t\<rparr>
                else t);
          bucket1 = length (heap t1);
          bucket2 = length (heap t1) + 1;
          t2 = t1\<lparr>heap := heap t1 @ [Bucket_new (bucket_size t1) (cur_local_depth + 1),
                                    Bucket_new (bucket_size t1) (cur_local_depth + 1)],
                  num_buckets := num_buckets t1 + 1\<rparr>;
          cnt = 2 ^ (global_depth t2 - cur_local_depth);
          offset = index mod 2 ^ cur_local_depth;
          t3 = t2\<lparr>dir := reassign_dir cnt cur_local_depth offset bucket1 bucket2 (dir t2)\<rparr>
      in redistribute hash (blist cur_bucket) t3)"

fun EHT_Insert ::
  "nat \<Rightarrow> ('k \<Rightarrow> nat) \<Rightarrow> ('k, 'v) ExtendibleHashTable \<Rightarrow> 'k \<Rightarrow> 'v \<Rightarrow>
   error + ('k, 'v) ExtendibleHashTable" where
  "EHT_Insert 0 hash t k v = Inl OutOfFuel"
| "EHT_Insert (Suc fuel) hash t k v =
     (let index = IndexOf hash t k;
          cur = dir t ! index;
          cur_bucket = heap t ! cur
      in case Bucket_Insert cur_bucket k v of
           (True, b) \<Rightarrow> Inr (t\<lparr>heap := (heap t)[cur := b]\<rparr>)
         | (False, b) \<Rightarrow>
             if Bucket_IsFull cur_bucket then EHT_Insert fuel hash (EHT_split hash t index) k v
             else Inl AssertionFailed)"

fun EHT_Insert_all ::
  "nat \<Rightarrow> ('k \<Rightarrow> nat) \<Rightarrow> ('k, 'v) ExtendibleHashTable \<Rightarrow> ('k \<times> 'v) list \<Rightarrow>
   error + ('k, 'v) ExtendibleHashTable" where
  "EHT_Insert_all fuel hash t [] = Inr t"
| "EHT_Insert_all fuel hash t ((k, v) # kvs) =
     (case EHT_Insert fuel hash t k v of
        Inl e \<Rightarrow> Inl e
      | Inr t' \<Rightarrow> EHT_Insert_all fuel hash t' kvs)"

definition live_buckets :: "('k, 'v) ExtendibleHashTable \<Rightarrow> nat" where
  "live_buckets t = length (remdups (dir t))"

section \<open>B+ tree pages and the buffer pool manager\<close>

text \<open>
  A frame of the pool holds a page: its \<^verbatim>\<open>data_\<close> bytes, read here as the B+ tree page the
  index code casts them to, and the header fields \<^verbatim>\<open>page_id_\<close>, \<^verbatim>\<open>pin_count_\<close> and
  \<^verbatim>\<open>is_dirty_\<close>. The fields of a tree page are those of \<^verbatim>\<open>BPlusTreePage\<close> and of the leaf
  page (\<^verbatim>\<open>size_\<close> is \<open>cur_size\<close>, the page's own \<^verbatim>\<open>page_id_\<close> is \<open>tree_page_id\<close>); the entries of
  \<^verbatim>\<open>array_\<close> are pairs of integers, a key and a record id in a leaf, a key and a page id in
  an internal page. A pointer to a page or to its data is the frame id.

  The page table is used through \<^verbatim>\<open>Find\<close>, \<^verbatim>\<open>Insert\<close> and \<^verbatim>\<open>Remove\<close> only and is the association
  list of the dictionary it implements; the disk manager is the association list of the
  pages written, and a page never written reads as zeros. \<^verbatim>\<open>next_page_id_\<close> of the pool is
  \<open>next_alloc_page_id\<close>. The code that picks a frame is the same in \<^verbatim>\<open>NewPgImp\<close> and
  \<^verbatim>\<open>FetchPgImp\<close> and is \<open>acquire_frame\<close> here.
\<close>

datatype IndexPageType = INVALID_INDEX_PAGE | LEAF_PAGE | INTERNAL_PAGE

record BPlusTreePage =
  page_type :: IndexPageType
  cur_size :: int
  max_size :: int
  parent_page_id :: page_id_t
  tree_page_id :: page_id_t
  next_page_id :: page_id_t
  array :: "(int \<times> int) list"

definition zeroed :: BPlusTreePage where
  \<comment> \<open>\<^verbatim>\<open>ResetMemory()\<close>: every byte of the page is zero\<close>
  "zeroed = \<lparr>page_type = INVALID_INDEX_PAGE, cur_size = 0, max_size = 0, parent_page_id = 0,
             tree_page_id = 0, next_page_id = 0, array = []\<rparr>"

record Page =
  data :: BPlusTreePage
  page_id :: page_id_t
  pin_count :: int
  is_dirty :: bool

definition Page_new :: Page where
  "Page_new = \<lparr>data = zeroed, page_id = INVALID_PAGE_ID, pin_count = 0, is_dirty = False\<rparr>"

record BufferPoolManagerInstance =
  pool_size :: nat
  pages :: "Page list"
  page_table :: "(page_id_t \<times> frame_id_t) list"
  replacer :: LRUKReplacer
  free_list :: "frame_id_t list"
  disk :: "(page_id_t \<times> BPlusTreePage) list"
  next_alloc_page_id :: page_id_t

definition BufferPoolManagerInstance_new :: "nat \<Rightarrow> nat \<Rightarrow> BufferPoolManagerInstance" where
  "BufferPoolManagerInstance_new n replacer_k =
     \<lparr>pool_size = n, pages = replicate n Page_new, page_table = [],
      replacer = LRUKReplacer_new (int n) replacer_k,
      free_list = map int [0..<n], disk = [], next_alloc_page_id = 0\<rparr>"

definition page_at :: "BufferPoolManagerInstance \<Rightarrow> frame_id_t \<Rightarrow> Page" where
  \<comment> \<open>\<^verbatim>\<open>pages_[frame_id]\<close>\<close>
  "page_at s f = pages s ! nat f"

definition set_page :: "BufferPoolManagerInstance \<Rightarrow> frame_id_t \<Rightarrow> Page \<Rightarrow> BufferPoolManagerInstance" where
  "set_page s f p = s\<lparr>pages := (pages s)[nat f := p]\<rparr>"

definition PT_Find :: "(page_id_t \<times> frame_id_t) list \<Rightarrow> page_id_t \<Rightarrow> frame_id_t option" where
  "PT_Find t p = map_of t p"

definition PT_Insert :: "(page_id_t \<times> frame_id_t) list \<Rightarrow> page_id_t \<Rightarrow> frame_id_t \<Rightarrow> (page_id_t \<times> frame_id_t) list" where
  "PT_Insert t p f = AList.update p f t"

definition PT_Remove :: "(page_id_t \<times> frame_id_t) list \<Rightarrow> page_id_t \<Rightarrow> (page_id_t \<times> frame_id_t) list" where
  "PT_Remove t p = AList.delete p t"

definition WritePage :: "(page_id_t \<times> BPlusTreePage) list \<Rightarrow> page_id_t \<Rightarrow> BPlusTreePage \<Rightarrow> (page_id_t \<times> BPlusTreePage) list" where
  "WritePage d p x = AList.update p x d"

definition ReadPage :: "(page_id_t \<times> BPlusTreePage) list \<Rightarrow> page_id_t \<Rightarrow> BPlusTreePage" where
  "ReadPage d p = (case map_of d p of None \<Rightarrow> zeroed | Some x \<Rightarrow> x)"

definition acquire_frame :: "BufferPoolManagerInstance \<Rightarrow> frame_id_t option \<times> BufferPoolManagerInstance" where
  "acquire_frame s =
     (if free_list s = [] then
        (case LRUK_Evict (replacer s) of
           (Some frame_id, r) \<Rightarrow>
             (let s1 = s\<lparr>replacer := r\<rparr>;
                  p = page_at s1 frame_id;
                  s2 = (if is_dirty p
                        then (set_page s1 frame_id (p\<lparr>is_dirty := False\<rparr>))
                               \<lparr>disk := WritePage (disk s1) (page_id p) (data p)\<rparr>
                        else s1)
              in (Some frame_id, s2\<lparr>page_table := PT_Remove (page_table s2) (page_id p)\<rparr>))
         | (None, r) \<Rightarrow> (None, s\<lparr>replacer := r\<rparr>))
      else (Some (last (free_list s)), s\<lparr>free_list := butlast (free_list s)\<rparr>))"

definition track_pinned ::
  "BufferPoolManagerInstance \<Rightarrow> frame_id_t \<Rightarrow> error + BufferPoolManagerInstance" where
  \<comment> \<open>\<^verbatim>\<open>replacer_->RecordAccess(frame_id); replacer_->SetEvictable(frame_id, false);\<close>\<close>
  "track_pinned s f =
     (case LRUK_RecordAccess (replacer s) f of
        (Some e, r) \<Rightarrow> Inl e
      | (None, r) \<Rightarrow>
          (case LRUK_SetEvictable r f False of
             (Some e, r') \<Rightarrow> Inl e
           | (None, r') \<Rightarrow> Inr (s\<lparr>replacer := r'\<rparr>)))"

definition BPM_NewPgImp ::
  "BufferPoolManagerInstance \<Rightarrow> error + ((page_id_t \<times> frame_id_t) option \<times> BufferPoolManagerInstance)" where
  "BPM_NewPgImp s =
     (case acquire_frame s of
        (None, s1) \<Rightarrow> Inr (None, s1)
      | (Some frame_id, s1) \<Rightarrow>
          (let id = next_alloc_page_id s1;
               s2 = s1\<lparr>next_alloc_page_id := id + 1\<rparr>;
               s3 = set_page s2 frame_id
                      \<lparr>data = zeroed, page_id = id, pin_count = 1, is_dirty = False\<rparr>;
               s4 = s3\<lparr>page_table := PT_Insert (page_table s3) id frame_id\<rparr>
           in case track_pinned s4 frame_id of
                Inl e \<Rightarrow> Inl e
              | Inr s5 \<Rightarrow> Inr (Some (id, frame_id), s5)))"

definition BPM_FetchPgImp ::
  "BufferPoolManagerInstance \<Rightarrow> page_id_t \<Rightarrow> error + (frame_id_t option \<times> BufferPoolManagerInstance)" where
  "BPM_FetchPgImp s pid =
     (case PT_Find (page_table s) pid of
        Some v \<Rightarrow>
          (let p = page_at s v;
               s1 = set_page s v (p\<lparr>pin_count := pin_count p + 1\<rparr>)
           in case track_pinned s1 v of
                Inl e \<Rightarrow> Inl e
              | Inr s2 \<Rightarrow> Inr (Some v, s2))
      | None \<Rightarrow>
          (case acquire_frame s of
             (None, s1) \<Rightarrow> Inr (None, s1)
           | (Some frame_id, s1) \<Rightarrow>
               (let s2 = set_page s1 frame_id
                           \<lparr>data = ReadPage (disk s1) pid, page_id = pid, pin_count = 1,
                            is_dirty = False\<rparr>;
                    s3 = s2\<lparr>page_table := PT_Insert (page_table s2) pid frame_id\<rparr>
                in case track_pinned s3 frame_id of
                     Inl e \<Rightarrow> Inl e
                   | Inr s4 \<Rightarrow> Inr (Some frame_id, s4))))"

definition BPM_UnpinPgImp ::
  "BufferPoolManagerInstance \<Rightarrow> page_id_t \<Rightarrow> bool \<Rightarrow> error + (bool \<times> BufferPoolManagerInstance)" where
  "BPM_UnpinPgImp s pid dirty =
     (case PT_Find (page_table s) pid of
        None \<Rightarrow> Inr (False, s)
      | Some index \<Rightarrow>
          if pin_count (page_at s index) \<le> 0 then Inr (False, s)
          else
            (let p = (page_at s index)\<lparr>pin_count := pin_count (page_at s index) - 1\<rparr>;
                 p' = (if dirty then p\<lparr>is_dirty := True\<rparr> else p)
             in if pin_count p = 0
                then (case LRUK_SetEvictable (replacer s) index True of
                        (Some e, r) \<Rightarrow> Inl e
                      | (None, r) \<Rightarrow> Inr (True, (set_page s index p')\<lparr>replacer := r\<rparr>))
                else Inr (True, set_page s index p')))"

definition BPM_FlushPgImp ::
  "BufferPoolManagerInstance \<Rightarrow> page_id_t \<Rightarrow> bool \<times> BufferPoolManagerInstance" where
  "BPM_FlushPgImp s pid =
     (case PT_Find (page_table s) pid of
        None \<Rightarrow> (False, s)
      | Some v \<Rightarrow>
          (True, (set_page s v ((page_at s v)\<lparr>is_dirty := False\<rparr>))
                   \<lparr>disk := WritePage (disk s) pid (data (page_at s v))\<rparr>))"

definition BPM_DeletePgImp ::
  "BufferPoolManagerInstance \<Rightarrow> page_id_t \<Rightarrow> bool \<times> BufferPoolManagerInstance" where
  "BPM_DeletePgImp s pid =
     (case PT_Find (page_table s) pid of
        None \<Rightarrow> (True, s)
      | Some v \<Rightarrow>
          if pin_count (page_at s v) \<noteq> 0 then (False, s)
          else
            (True,
             (set_page s v \<lparr>data = zeroed, page_id = INVALID_PAGE_ID, pin_count = 0, is_dirty = False\<rparr>)
               \<lparr>page_table := PT_Remove (page_table s) pid,
                replacer := LRUK_Remove (replacer s) v,
                free_list := free_list s @ [v]\<rparr>))"

definition one_page_pool :: BufferPoolManagerInstance where
  "one_page_pool =
     (case BPM_NewPgImp (BufferPoolManagerInstance_new 3 2) of
        Inr (Some x, s) \<Rightarrow> s
      | _ \<Rightarrow> BufferPoolManagerInstance_new 3 2)"

definition bpm_wf :: "BufferPoolManagerInstance \<Rightarrow> bool" where
  "bpm_wf s \<longleftrightarrow>
     replacer_inv (replacer s) \<and>
     list_all (\<lambda>f. 0 \<le> f \<and> nat f < length (pages s) \<and> pin_count (page_at s f) = 0) (free_list s) \<and>
     list_all (\<lambda>n. 0 \<le> key n \<and> nat (key n) < length (pages s) \<and>
                    (evictable n \<longrightarrow> pin_count (page_at s (key n)) = 0)) (tracked (replacer s)) \<and>
     list_all (\<lambda>(p, f). 0 \<le> f \<and> nat f < length (pages s)) (page_table s) \<and>
     list_all (\<lambda>p. 0 \<le> pin_count p) (pages s) \<and>
     int (length (pages s)) \<le> replacer_size (replacer s) \<and> replacer_size (replacer s) < 2 ^ 31"

definition after_evict :: "BufferPoolManagerInstance \<Rightarrow> frame_id_t \<Rightarrow> BufferPoolManagerInstance" where
  "after_evict s f =
     (let s1 = s\<lparr>replacer := snd (LRUK_Evict (replacer s))\<rparr>;
          p = page_at s f;
          s2 = (if is_dirty p
                then (set_page s1 f (p\<lparr>is_dirty := False\<rparr>))
                       \<lparr>disk := WritePage (disk s) (page_id p) (data p)\<rparr>
                else s1)
      in s2\<lparr>page_table := PT_Remove (page_table s) (page_id p)\<rparr>)"

definition fresh_page ::
  "BufferPoolManagerInstance \<Rightarrow> BufferPoolManagerInstance \<Rightarrow> frame_id_t \<Rightarrow> bool" where
  "fresh_page s s' f \<longleftrightarrow>
     next_alloc_page_id s' = next_alloc_page_id s + 1 \<and>
     page_at s' f = \<lparr>data = zeroed, page_id = next_alloc_page_id s, pin_count = 1, is_dirty = False\<rparr> \<and>
     PT_Find (page_table s') (next_alloc_page_id s) = Some f \<and>
     (\<exists>n. map_lookup (replacer s') f = Some n \<and> \<not> evictable n)"

definition pinned_pool :: BufferPoolManagerInstance where
  "pinned_pool =
     (case BPM_NewPgImp (BufferPoolManagerInstance_new 1 2) of
        Inr (Some x, s) \<Rightarrow> s
      | _ \<Rightarrow> BufferPoolManagerInstance_new 1 2)"

definition dirty_pool :: BufferPoolManagerInstance where
  "dirty_pool =
     (case BPM_UnpinPgImp
             (set_page pinned_pool 0 ((page_at pinned_pool 0)\<lparr>data := zeroed\<lparr>cur_size := 7\<rparr>\<rparr>)) 0 True of
        Inr (b, s) \<Rightarrow> s
      | _ \<Rightarrow> pinned_pool)"

section \<open>The index iterator\<close>

text \<open>
  The iterator holds a pointer to the data of a leaf page and an index into the leaf. The
  pointer is \<open>Some f\<close>, the data of the page in frame \<open>f\<close> of the pool, or \<open>None\<close>, the address
  that \<^verbatim>\<open>GetData()\<close> gives for a null page pointer, which is the data of no page; reading
  through it is the error \<open>NullPointer\<close>. \<^verbatim>\<open>operator++\<close> is \<open>Iterator_incr\<close>; it calls
  \<^verbatim>\<open>FetchPage\<close> and \<^verbatim>\<open>UnpinPage\<close> of the buffer pool manager, which are \<^verbatim>\<open>FetchPgImp\<close> and
  \<^verbatim>\<open>UnpinPgImp\<close>. It does not test the page pointer that \<^verbatim>\<open>FetchPage\<close> returns: it takes the
  data address of whatever comes back, stores it, unpins the page id and returns.
\<close>

record IndexIterator =
  leaf_node :: "frame_id_t option"
  key_index :: int

definition Iterator_IsEnd :: "BufferPoolManagerInstance \<Rightarrow> IndexIterator \<Rightarrow> error + bool" where
  "Iterator_IsEnd s it =
     (case leaf_node it of
        None \<Rightarrow> Inl NullPointer
      | Some cur \<Rightarrow>
          (let leaf = data (page_at s cur)
           in Inr (cur_size leaf \<le> key_index it \<and> next_page_id leaf = - 1)))"

definition Iterator_incr ::
  "BufferPoolManagerInstance \<Rightarrow> IndexIterator \<Rightarrow> error + (IndexIterator \<times> BufferPoolManagerInstance)" where
  "Iterator_incr s it =
     (case leaf_node it of
        None \<Rightarrow> Inl NullPointer
      | Some cur \<Rightarrow>
          (let leaf = data (page_at s cur);
               leaf_size = cur_size leaf
           in if leaf_size \<le> key_index it then Inl IteratorOutOfRange
              else if key_index it < leaf_size - 1 then Inr (it\<lparr>key_index := key_index it + 1\<rparr>, s)
              else
                (let next = next_page_id leaf
                 in if next = - 1 then Inr (it\<lparr>key_index := key_index it + 1\<rparr>, s)
                    else
                      (case BPM_FetchPgImp s next of
                         Inl e \<Rightarrow> Inl e
                       | Inr (next_page, s1) \<Rightarrow>
                           (case BPM_UnpinPgImp s1 next False of
                              Inl e \<Rightarrow> Inl e
                            | Inr (b, s2) \<Rightarrow> Inr (\<lparr>leaf_node = next_page, key_index = 0\<rparr>, s2))))))"

definition leaf_of :: "BufferPoolManagerInstance \<Rightarrow> frame_id_t \<Rightarrow> BPlusTreePage" where
  \<comment> \<open>the leaf page in frame \<open>cur\<close>\<close>
  "leaf_of s cur = data (page_at s cur)"

definition two_leaf_pool :: BufferPoolManagerInstance where
  "two_leaf_pool =
     (case BPM_NewPgImp (BufferPoolManagerInstance_new 3 2) of
        Inr (Some (p0, f0), s0) \<Rightarrow>
          (case BPM_NewPgImp s0 of
             Inr (Some (p1, f1), s1) \<Rightarrow>
               (let s2 = set_page s1 f0 ((page_at s1 f0)
                           \<lparr>data := \<lparr>page_type = LEAF_PAGE, cur_size = 2, max_size = 4,
                                      parent_page_id = - 1, tree_page_id = p0, next_page_id = p1,
                                      array = [(1, 1), (2, 2)]\<rparr>\<rparr>);
                    s3 = set_page s2 f1 ((page_at s2 f1)
                           \<lparr>data := \<lparr>page_type = LEAF_PAGE, cur_size = 2, max_size = 4,
                                      parent_page_id = - 1, tree_page_id = p1, next_page_id = - 1,
                                      array = [(3, 3), (4, 4)]\<rparr>\<rparr>)
                in case BPM_UnpinPgImp s3 p1 True of
                     Inr (b, s4) \<Rightarrow> s4
                   | _ \<Rightarrow> s3)
           | _ \<Rightarrow> s0)
      | _ \<Rightarrow> BufferPoolManagerInstance_new 3 2)"

section \<open>The operations of the tree pages\<close>

text \<open>
  Keys and values are integers here, and the comparator is the order of the integers. The
  \<^verbatim>\<open>array_\<close> of a page is a list of pairs that grows when a slot beyond its end is written;
  the size of the page is a field of its own, so the entries at and above the size stay in
  the list, as they stay in the memory of the page. \<^verbatim>\<open>GetSize\<close>, \<^verbatim>\<open>SetSize\<close>, \<^verbatim>\<open>GetPageId\<close> and
  the other accessors of \<^verbatim>\<open>BPlusTreePage\<close> read and write the fields of the record.
\<close>

definition array_at :: "(int \<times> int) list \<Rightarrow> int \<Rightarrow> int \<times> int" where
  \<comment> \<open>\<^verbatim>\<open>array_[i]\<close>; a slot never written since the page was zeroed reads as zeros\<close>
  "array_at a i = (if 0 \<le> i \<and> nat i < length a then a ! nat i else (0, 0))"

definition array_set :: "(int \<times> int) list \<Rightarrow> int \<Rightarrow> int \<times> int \<Rightarrow> (int \<times> int) list" where
  \<comment> \<open>\<^verbatim>\<open>array_[i] = x\<close>\<close>
  "array_set a i x =
     (if i < 0 then a
      else if nat i < length a then a[nat i := x]
      else a @ replicate (nat i - length a) (0, 0) @ [x])"

definition IsLeafPage :: "BPlusTreePage \<Rightarrow> bool" where
  "IsLeafPage p = (page_type p = LEAF_PAGE)"

definition IsRootPage :: "BPlusTreePage \<Rightarrow> bool" where
  "IsRootPage p = (parent_page_id p = INVALID_PAGE_ID)"

definition IncreaseSize :: "BPlusTreePage \<Rightarrow> int \<Rightarrow> BPlusTreePage" where
  "IncreaseSize p amount = p\<lparr>cur_size := cur_size p + amount\<rparr>"

definition KeyAt :: "BPlusTreePage \<Rightarrow> int \<Rightarrow> int" where
  "KeyAt p i = fst (array_at (array p) i)"

definition ValueAt :: "BPlusTreePage \<Rightarrow> int \<Rightarrow> int" where
  "ValueAt p i = snd (array_at (array p) i)"

definition SetKeyAt :: "BPlusTreePage \<Rightarrow> int \<Rightarrow> int \<Rightarrow> BPlusTreePage" where
  "SetKeyAt p i k = p\<lparr>array := array_set (array p) i (k, snd (array_at (array p) i))\<rparr>"

definition shift_right :: "(int \<times> int) list \<Rightarrow> int \<Rightarrow> int \<Rightarrow> (int \<times> int) list" where
  \<comment> \<open>\<^verbatim>\<open>for (int i = size; i > index; i--) array_[i] = array_[i - 1];\<close>\<close>
  "shift_right a index sz = foldl (\<lambda>a i. array_set a i (array_at a (i - 1))) a (rev [index + 1..sz])"

definition shift_left :: "(int \<times> int) list \<Rightarrow> int \<Rightarrow> int \<Rightarrow> (int \<times> int) list" where
  \<comment> \<open>\<^verbatim>\<open>for (int i = index; i + 1 < size; i++) array_[i] = array_[i + 1];\<close>\<close>
  "shift_left a index sz = foldl (\<lambda>a i. array_set a i (array_at a (i + 1))) a [index..sz - 2]"

subsection \<open>Leaf pages\<close>

definition Leaf_Init :: "BPlusTreePage \<Rightarrow> page_id_t \<Rightarrow> page_id_t \<Rightarrow> int \<Rightarrow> BPlusTreePage" where
  "Leaf_Init p pid parent_id max_sz =
     p\<lparr>page_type := LEAF_PAGE, cur_size := 0, tree_page_id := pid, parent_page_id := parent_id,
       max_size := max_sz, next_page_id := INVALID_PAGE_ID\<rparr>"

function Leaf_FindKey_from :: "BPlusTreePage \<Rightarrow> int \<Rightarrow> int \<Rightarrow> int option" where
  "Leaf_FindKey_from p k i =
     (if cur_size p \<le> i then None
      else if KeyAt p i = k then Some (ValueAt p i)
      else Leaf_FindKey_from p k (i + 1))"
  by pat_completeness auto
termination
  by (relation "measure (\<lambda>(p, k, i). nat (cur_size p - i))") auto

definition Leaf_FindKey :: "BPlusTreePage \<Rightarrow> int \<Rightarrow> int option" where
  \<comment> \<open>\<^verbatim>\<open>for (int i = 0; i < GetSize(); i++) if (comparator_(array_[i].first, key) == 0) ...\<close>\<close>
  "Leaf_FindKey p k = Leaf_FindKey_from p k 0"

function Leaf_FindIndex_from :: "BPlusTreePage \<Rightarrow> int \<Rightarrow> int \<Rightarrow> int" where
  "Leaf_FindIndex_from p k i =
     (if cur_size p \<le> i then i
      else if k \<le> KeyAt p i then i
      else Leaf_FindIndex_from p k (i + 1))"
  by pat_completeness auto
termination
  by (relation "measure (\<lambda>(p, k, i). nat (cur_size p - i))") auto

definition Leaf_FindIndex :: "BPlusTreePage \<Rightarrow> int \<Rightarrow> int" where
  "Leaf_FindIndex p k = Leaf_FindIndex_from p k 0"

definition Leaf_InsertAfter :: "BPlusTreePage \<Rightarrow> int \<Rightarrow> int \<Rightarrow> BPlusTreePage" where
  "Leaf_InsertAfter p k v = IncreaseSize (p\<lparr>array := array_set (array p) (cur_size p) (k, v)\<rparr>) 1"

definition Leaf_Insert :: "BPlusTreePage \<Rightarrow> int \<Rightarrow> int \<Rightarrow> BPlusTreePage" where
  "Leaf_Insert p k v =
     (let index = Leaf_FindIndex p k;
          sz = cur_size p;
          a = shift_right (array p) index sz
      in IncreaseSize (p\<lparr>array := array_set a index (k, v)\<rparr>) 1)"

subsection \<open>Internal pages\<close>

definition Internal_Init :: "BPlusTreePage \<Rightarrow> page_id_t \<Rightarrow> page_id_t \<Rightarrow> int \<Rightarrow> BPlusTreePage" where
  "Internal_Init p pid parent_id max_sz =
     p\<lparr>page_type := INTERNAL_PAGE, cur_size := 0, tree_page_id := pid, parent_page_id := parent_id,
       max_size := max_sz\<rparr>"

function Internal_FindIndex_from :: "BPlusTreePage \<Rightarrow> int \<Rightarrow> int \<Rightarrow> int" where
  "Internal_FindIndex_from p k i =
     (if cur_size p \<le> i then i
      else if k < KeyAt p i then i
      else Internal_FindIndex_from p k (i + 1))"
  by pat_completeness auto
termination
  by (relation "measure (\<lambda>(p, k, i). nat (cur_size p - i))") auto

definition Internal_FindIndex :: "BPlusTreePage \<Rightarrow> int \<Rightarrow> int" where
  \<comment> \<open>the first index from 1 whose key is greater than the key sought, or the size\<close>
  "Internal_FindIndex p k = Internal_FindIndex_from p k 1"

definition Internal_Insert :: "BPlusTreePage \<Rightarrow> int \<Rightarrow> int \<Rightarrow> BPlusTreePage" where
  "Internal_Insert p k v =
     (let index = Internal_FindIndex p k;
          sz = cur_size p;
          a = shift_right (array p) index sz
      in IncreaseSize (p\<lparr>array := array_set a index (k, v)\<rparr>) 1)"

definition Internal_InsertAfter :: "BPlusTreePage \<Rightarrow> int \<Rightarrow> int \<Rightarrow> BPlusTreePage" where
  "Internal_InsertAfter p k v = IncreaseSize (p\<lparr>array := array_set (array p) (cur_size p) (k, v)\<rparr>) 1"

definition Internal_SetValue0 :: "BPlusTreePage \<Rightarrow> int \<Rightarrow> BPlusTreePage" where
  "Internal_SetValue0 p v =
     (let p1 = (if cur_size p = 0 then IncreaseSize p 1 else p)
      in p1\<lparr>array := array_set (array p1) 0 (fst (array_at (array p1) 0), v)\<rparr>)"

section \<open>The B+ tree\<close>

text \<open>
  The tree of \<^verbatim>\<open>b_plus_tree.cpp\<close> in its text with \<^verbatim>\<open>Remove\<close>. A pointer to the data of a page is
  the frame of the page, and a write through it changes the page in that frame, pinned or
  not. A \<^verbatim>\<open>FetchPage\<close> or \<^verbatim>\<open>NewPage\<close> whose result is used without a test is the error
  \<open>NullPointer\<close> when it returns null. The loops that walk down or up the tree take a bound on
  the number of their rounds. The header page is page 0; the class \<^verbatim>\<open>HeaderPage\<close> is not among
  the sources, and the records \<^verbatim>\<open>UpdateRootPageId\<close> writes into it are not modelled, its pin
  count and dirty flag are.
\<close>

record BPlusTree =
  root_page_id :: page_id_t
  leaf_max_size :: int
  internal_max_size :: int
  buffer_pool_manager :: BufferPoolManagerInstance

definition HEADER_PAGE_ID :: page_id_t where
  "HEADER_PAGE_ID = 0"

definition BPlusTree_new :: "BufferPoolManagerInstance \<Rightarrow> int \<Rightarrow> int \<Rightarrow> BPlusTree" where
  "BPlusTree_new bpm leaf_max internal_max =
     \<lparr>root_page_id = INVALID_PAGE_ID, leaf_max_size = leaf_max, internal_max_size = internal_max,
      buffer_pool_manager = bpm\<rparr>"

definition FetchPage :: "error \<Rightarrow> BPlusTree \<Rightarrow> page_id_t \<Rightarrow> error + (frame_id_t \<times> BPlusTree)" where
  \<comment> \<open>\<^verbatim>\<open>FetchPage\<close> whose result is dereferenced (\<open>NullPointer\<close>) or asserted (\<open>AssertionFailed\<close>)\<close>
  "FetchPage e t pid =
     ebind (BPM_FetchPgImp (buffer_pool_manager t) pid)
       (\<lambda>(r, s). case r of None \<Rightarrow> Inl e
                        | Some f \<Rightarrow> Inr (f, t\<lparr>buffer_pool_manager := s\<rparr>))"

definition NewPage :: "error \<Rightarrow> BPlusTree \<Rightarrow> error + ((page_id_t \<times> frame_id_t) \<times> BPlusTree)" where
  "NewPage e t =
     ebind (BPM_NewPgImp (buffer_pool_manager t))
       (\<lambda>(r, s). case r of None \<Rightarrow> Inl e
                        | Some x \<Rightarrow> Inr (x, t\<lparr>buffer_pool_manager := s\<rparr>))"

definition UnpinPage :: "BPlusTree \<Rightarrow> page_id_t \<Rightarrow> bool \<Rightarrow> error + BPlusTree" where
  "UnpinPage t pid dirty =
     ebind (BPM_UnpinPgImp (buffer_pool_manager t) pid dirty)
       (\<lambda>(b, s). Inr (t\<lparr>buffer_pool_manager := s\<rparr>))"

definition DeletePage :: "BPlusTree \<Rightarrow> page_id_t \<Rightarrow> bool \<times> BPlusTree" where
  "DeletePage t pid =
     (case BPM_DeletePgImp (buffer_pool_manager t) pid of
        (b, s) \<Rightarrow> (b, t\<lparr>buffer_pool_manager := s\<rparr>))"

definition node :: "BPlusTree \<Rightarrow> frame_id_t \<Rightarrow> BPlusTreePage" where
  \<comment> \<open>the tree page a pointer into the pool points to\<close>
  "node t f = data (page_at (buffer_pool_manager t) f)"

definition set_node_data :: "BPlusTree \<Rightarrow> frame_id_t \<Rightarrow> BPlusTreePage \<Rightarrow> BPlusTree" where
  \<comment> \<open>a write through such a pointer\<close>
  "set_node_data t f d =
     t\<lparr>buffer_pool_manager :=
         set_page (buffer_pool_manager t) f ((page_at (buffer_pool_manager t) f)\<lparr>data := d\<rparr>)\<rparr>"

definition IsEmpty :: "BPlusTree \<Rightarrow> bool" where
  "IsEmpty t = (root_page_id t = - 1)"

definition UpdateRootPageId :: "BPlusTree \<Rightarrow> int \<Rightarrow> error + BPlusTree" where
  \<comment> \<open>\<^verbatim>\<open>InsertRecord\<close> and \<^verbatim>\<open>UpdateRecord\<close> write the record of the index into the header page;
      the contents of the header page are not modelled, its pin and dirty flag are\<close>
  "UpdateRootPageId t insert_record =
     ebind (FetchPage NullPointer t HEADER_PAGE_ID) (\<lambda>(f, t1). UnpinPage t1 HEADER_PAGE_ID True)"

fun FindLeaf_loop :: "nat \<Rightarrow> BPlusTree \<Rightarrow> frame_id_t \<Rightarrow> int \<Rightarrow> error + (frame_id_t \<times> BPlusTree)" where
  "FindLeaf_loop 0 t cur_node k = Inl OutOfFuel"
| "FindLeaf_loop (Suc fuel) t cur_node k =
     (if IsLeafPage (node t cur_node) then Inr (cur_node, t)
      else
        (let index = Internal_FindIndex (node t cur_node) k;
             pid = ValueAt (node t cur_node) (index - 1)
         in ebind (FetchPage NullPointer t pid) (\<lambda>(next_page, t1).
            ebind (UnpinPage t1 pid False) (\<lambda>t2.
            FindLeaf_loop fuel t2 next_page k))))"

definition FindLeaf :: "nat \<Rightarrow> BPlusTree \<Rightarrow> int \<Rightarrow> error + (frame_id_t \<times> BPlusTree)" where
  "FindLeaf fuel t k =
     ebind (FetchPage NullPointer t (root_page_id t)) (\<lambda>(root_page, t1).
     ebind (FindLeaf_loop fuel t1 root_page k) (\<lambda>(cur_node, t2).
     ebind (UnpinPage t2 (root_page_id t2) False) (\<lambda>t3.
     Inr (cur_node, t3))))"

definition GetValue :: "nat \<Rightarrow> BPlusTree \<Rightarrow> int \<Rightarrow> error + (int option \<times> BPlusTree)" where
  "GetValue fuel t k =
     (if IsEmpty t then Inr (None, t)
      else ebind (FindLeaf fuel t k) (\<lambda>(leafnode, t1).
           Inr (Leaf_FindKey (node t1 leafnode) k, t1)))"

definition copy_leaf_entries :: "BPlusTreePage \<Rightarrow> int \<Rightarrow> int \<Rightarrow> BPlusTreePage \<Rightarrow> BPlusTreePage" where
  \<comment> \<open>\<^verbatim>\<open>for (int i = half; i < old_size; i++) new_node->InsertAfter(node->KeyAt(i), node->ValueAt(i));\<close>\<close>
  "copy_leaf_entries src lo hi dst =
     foldl (\<lambda>d i. Leaf_InsertAfter d (KeyAt src i) (ValueAt src i)) dst [lo..hi - 1]"

definition LeafSplit :: "BPlusTree \<Rightarrow> frame_id_t \<Rightarrow> error + (frame_id_t \<times> BPlusTree)" where
  "LeafSplit t leaf =
     ebind (NewPage NullPointer t) (\<lambda>((new_page_id, new_leaf_node), t1).
       (let t2 = set_node_data t1 new_leaf_node
                   (Leaf_Init (node t1 new_leaf_node) new_page_id (- 1) (leaf_max_size t1));
            old_size = cur_size (node t2 leaf);
            half = old_size div 2;
            t3 = set_node_data t2 new_leaf_node
                   (copy_leaf_entries (node t2 leaf) half old_size (node t2 new_leaf_node));
            t4 = set_node_data t3 leaf ((node t3 leaf)\<lparr>cur_size := half\<rparr>);
            t5 = set_node_data t4 new_leaf_node ((node t4 new_leaf_node)\<lparr>cur_size := old_size - half\<rparr>);
            t6 = set_node_data t5 new_leaf_node
                   ((node t5 new_leaf_node)\<lparr>next_page_id := next_page_id (node t5 leaf)\<rparr>);
            t7 = set_node_data t6 leaf ((node t6 leaf)\<lparr>next_page_id := new_page_id\<rparr>)
        in ebind (UnpinPage t7 new_page_id True) (\<lambda>t8. Inr (new_leaf_node, t8))))"

definition InternalSplit ::
  "BPlusTree \<Rightarrow> BPlusTreePage \<Rightarrow> error + ((BPlusTreePage \<times> frame_id_t) \<times> BPlusTree)" where
  \<comment> \<open>the page that is split is the copy of the parent in \<^verbatim>\<open>mem\<close>, not a page of the pool: it is
      passed and returned by value\<close>
  "InternalSplit t internal_page =
     ebind (NewPage NullPointer t) (\<lambda>((new_page_id, new_internal_node), t1).
       (let t2 = set_node_data t1 new_internal_node
                   (Internal_Init (node t1 new_internal_node) new_page_id (- 1) (internal_max_size t1));
            old_size = cur_size internal_page;
            half = 1 + (old_size - 1) div 2;
            t3 = set_node_data t2 new_internal_node
                   (foldl (\<lambda>d i. Internal_InsertAfter d (KeyAt internal_page i) (ValueAt internal_page i))
                      (node t2 new_internal_node) [half..cur_size internal_page - 1]);
            internal_page' = internal_page\<lparr>cur_size := half\<rparr>;
            t4 = set_node_data t3 new_internal_node
                   ((node t3 new_internal_node)\<lparr>cur_size := old_size - half\<rparr>)
        in ebind (UnpinPage t4 new_page_id True) (\<lambda>t5.
           Inr ((internal_page', new_internal_node), t5))))"

definition memcpy_page :: "BPlusTreePage \<Rightarrow> int \<Rightarrow> BPlusTreePage \<Rightarrow> BPlusTreePage" where
  \<comment> \<open>\<^verbatim>\<open>memcpy(dst, src, INTERNAL_PAGE_HEADER_SIZE + sizeof(MappingType) * n)\<close>: the header
      and the first \<open>n\<close> entries of \<open>src\<close> overwrite those of \<open>dst\<close>. \<^verbatim>\<open>next_page_id_\<close> is not part
      of the header of an internal page.\<close>
  "memcpy_page src n dst =
     src\<lparr>next_page_id := next_page_id dst,
         array := foldl (\<lambda>a i. array_set a i (array_at (array src) i)) (array dst) [0..n - 1]\<rparr>"

fun InsertIntoParent ::
  "nat \<Rightarrow> BPlusTree \<Rightarrow> frame_id_t \<Rightarrow> int \<Rightarrow> frame_id_t \<Rightarrow> error + BPlusTree" where
  "InsertIntoParent 0 t old_node k new_node = Inl OutOfFuel"
| "InsertIntoParent (Suc fuel) t old_node k new_node =
     (if IsRootPage (node t old_node) then
        ebind (NewPage NullPointer t) (\<lambda>((rid, new_root), t1).
          (let t2 = t1\<lparr>root_page_id := rid\<rparr>;
               t3 = set_node_data t2 new_root
                      (Internal_Init (node t2 new_root) (root_page_id t2) (- 1) (internal_max_size t2));
               t4 = set_node_data t3 new_root
                      (Internal_SetValue0 (node t3 new_root) (tree_page_id (node t3 old_node)));
               t5 = set_node_data t4 new_root
                      (Internal_InsertAfter (node t4 new_root) k (tree_page_id (node t4 new_node)));
               t6 = set_node_data t5 old_node ((node t5 old_node)\<lparr>parent_page_id := root_page_id t5\<rparr>);
               t7 = set_node_data t6 new_node ((node t6 new_node)\<lparr>parent_page_id := root_page_id t6\<rparr>)
           in ebind (UpdateRootPageId t7 0) (\<lambda>t8. UnpinPage t8 (root_page_id t8) True)))
      else
        (let parent_page_id' = parent_page_id (node t old_node)
         in ebind (FetchPage AssertionFailed t parent_page_id') (\<lambda>(parent_page, t1).
            if cur_size (node t1 parent_page) < internal_max_size t1 then
              (let t2 = set_node_data t1 parent_page
                          (Internal_Insert (node t1 parent_page) k (tree_page_id (node t1 new_node)));
                   t3 = set_node_data t2 new_node ((node t2 new_node)\<lparr>parent_page_id := parent_page_id'\<rparr>)
               in UnpinPage t3 parent_page_id' True)
            else
              (let copy_parent_node =
                     memcpy_page (node t1 parent_page) (cur_size (node t1 parent_page)) zeroed;
                   copy1 = Internal_Insert copy_parent_node k (tree_page_id (node t1 new_node))
               in ebind (InternalSplit t1 copy1) (\<lambda>((copy2, parent_new_split_node), t2).
                  (let t3 = set_node_data t2 new_node
                              ((node t2 new_node)\<lparr>parent_page_id := tree_page_id (node t2 parent_new_split_node)\<rparr>);
                       new_risen_key = KeyAt (node t3 parent_new_split_node) 0;
                       t4 = set_node_data t3 parent_page
                              (memcpy_page copy2 (cur_size copy2) (node t3 parent_page));
                       t5 = set_node_data t4 parent_page ((node t4 parent_page)\<lparr>cur_size := cur_size copy2\<rparr>)
                   in ebind (InsertIntoParent fuel t5 parent_page new_risen_key parent_new_split_node)
                        (\<lambda>t6. UnpinPage t6 parent_page_id' True)))))))"

definition InsertIntoLeaf :: "nat \<Rightarrow> BPlusTree \<Rightarrow> int \<Rightarrow> int \<Rightarrow> error + BPlusTree" where
  "InsertIntoLeaf fuel t k v =
     ebind (FindLeaf fuel t k) (\<lambda>(leaf, t1).
       (let t2 = set_node_data t1 leaf (Leaf_Insert (node t1 leaf) k v)
        in if cur_size (node t2 leaf) < leaf_max_size t2 then Inr t2
           else ebind (LeafSplit t2 leaf) (\<lambda>(new_leaf_node, t3).
                InsertIntoParent fuel t3 leaf (KeyAt (node t3 new_leaf_node) 0) new_leaf_node)))"

definition Insert :: "nat \<Rightarrow> BPlusTree \<Rightarrow> int \<Rightarrow> int \<Rightarrow> error + (bool \<times> BPlusTree)" where
  "Insert fuel t k v =
     (if IsEmpty t then
        ebind (NewPage AssertionFailed t) (\<lambda>((rid, leaf_page), t1).
          (let t2 = t1\<lparr>root_page_id := rid\<rparr>;
               t3 = set_node_data t2 leaf_page
                      (Leaf_Init (node t2 leaf_page) (root_page_id t2) (- 1) (leaf_max_size t2));
               t4 = set_node_data t3 leaf_page (Leaf_Insert (node t3 leaf_page) k v)
           in ebind (UnpinPage t4 (root_page_id t4) True) (\<lambda>t5.
              ebind (UpdateRootPageId t5 1) (\<lambda>t6. Inr (True, t6)))))
      else
        ebind (GetValue fuel t k) (\<lambda>(result, t1).
          if result \<noteq> None then Inr (False, t1)
          else ebind (InsertIntoLeaf fuel t1 k v) (\<lambda>t2. Inr (True, t2))))"

definition header_pool :: "nat \<Rightarrow> nat \<Rightarrow> BufferPoolManagerInstance" where
  \<comment> \<open>a new pool in which the header page (page 0) has been created and is held pinned\<close>
  "header_pool n replacer_k =
     (case BPM_NewPgImp (BufferPoolManagerInstance_new n replacer_k) of
        Inr (Some x, s) \<Rightarrow> s
      | _ \<Rightarrow> BufferPoolManagerInstance_new n replacer_k)"

fun Insert_all :: "nat \<Rightarrow> BPlusTree \<Rightarrow> int list \<Rightarrow> error + BPlusTree" where
  "Insert_all fuel t [] = Inr t"
| "Insert_all fuel t (k # ks) = ebind (Insert fuel t k k) (\<lambda>(b, t1). Insert_all fuel t1 ks)"

subsection \<open>Iterators and scans\<close>

fun Begin_loop :: "nat \<Rightarrow> BPlusTree \<Rightarrow> frame_id_t \<Rightarrow> error + (frame_id_t \<times> BPlusTree)" where
  "Begin_loop 0 t cur_node = Inl OutOfFuel"
| "Begin_loop (Suc fuel) t cur_node =
     (if IsLeafPage (node t cur_node) then Inr (cur_node, t)
      else
        (let pid = ValueAt (node t cur_node) 0
         in ebind (FetchPage NullPointer t pid) (\<lambda>(next_page, t1).
            ebind (UnpinPage t1 pid False) (\<lambda>t2.
            Begin_loop fuel t2 next_page))))"

definition Begin :: "nat \<Rightarrow> BPlusTree \<Rightarrow> error + (IndexIterator \<times> BPlusTree)" where
  "Begin fuel t =
     (if IsEmpty t then Inl AssertionFailed
      else
        ebind (FetchPage NullPointer t (root_page_id t)) (\<lambda>(root_page, t1).
        ebind (Begin_loop fuel t1 root_page) (\<lambda>(cur_node, t2).
        ebind (UnpinPage t2 (root_page_id t2) False) (\<lambda>t3.
        Inr (\<lparr>leaf_node = Some cur_node, key_index = 0\<rparr>, t3)))))"

definition Begin_at :: "nat \<Rightarrow> BPlusTree \<Rightarrow> int \<Rightarrow> error + (IndexIterator \<times> BPlusTree)" where
  \<comment> \<open>\<^verbatim>\<open>Begin(const KeyType &key)\<close>\<close>
  "Begin_at fuel t k =
     (if IsEmpty t then Inl AssertionFailed
      else
        ebind (FindLeaf fuel t k) (\<lambda>(leaf, t1).
        Inr (\<lparr>leaf_node = Some leaf, key_index = Leaf_FindIndex (node t1 leaf) k\<rparr>, t1)))"

fun End_loop :: "nat \<Rightarrow> BPlusTree \<Rightarrow> frame_id_t \<Rightarrow> error + (frame_id_t \<times> BPlusTree)" where
  "End_loop 0 t cur_node = Inl OutOfFuel"
| "End_loop (Suc fuel) t cur_node =
     (if IsLeafPage (node t cur_node) then Inr (cur_node, t)
      else
        (let pid = ValueAt (node t cur_node) (cur_size (node t cur_node) - 1)
         in ebind (FetchPage NullPointer t pid) (\<lambda>(next_page, t1).
            ebind (UnpinPage t1 pid False) (\<lambda>t2.
            End_loop fuel t2 next_page))))"

definition End :: "nat \<Rightarrow> BPlusTree \<Rightarrow> error + (IndexIterator \<times> BPlusTree)" where
  "End fuel t =
     (if IsEmpty t then Inl AssertionFailed
      else
        ebind (FetchPage NullPointer t (root_page_id t)) (\<lambda>(root_page, t1).
        ebind (End_loop fuel t1 root_page) (\<lambda>(cur_node, t2).
        ebind (UnpinPage t2 (root_page_id t2) False) (\<lambda>t3.
        Inr (\<lparr>leaf_node = Some cur_node, key_index = (cur_size (node t3 cur_node) - 1) + 1\<rparr>, t3)))))"

definition Iterator_deref :: "BufferPoolManagerInstance \<Rightarrow> IndexIterator \<Rightarrow> error + (int \<times> int)" where
  \<comment> \<open>\<^verbatim>\<open>operator*\<close>: \<^verbatim>\<open>leaf_node_->MappingAt(key_index_)\<close>\<close>
  "Iterator_deref s it =
     (case leaf_node it of
        None \<Rightarrow> Inl NullPointer
      | Some cur \<Rightarrow> Inr (array_at (array (data (page_at s cur))) (key_index it)))"

fun scan_loop ::
  "nat \<Rightarrow> BufferPoolManagerInstance \<Rightarrow> IndexIterator \<Rightarrow> (int \<times> int) list \<Rightarrow>
   error + ((int \<times> int) list \<times> BufferPoolManagerInstance)" where
  "scan_loop 0 s it acc = Inl OutOfFuel"
| "scan_loop (Suc fuel) s it acc =
     ebind (Iterator_IsEnd s it) (\<lambda>at_end.
       if at_end then Inr (acc, s)
       else ebind (Iterator_deref s it) (\<lambda>kv.
            ebind (Iterator_incr s it) (\<lambda>(it', s'). scan_loop fuel s' it' (acc @ [kv]))))"

definition scan :: "nat \<Rightarrow> BPlusTree \<Rightarrow> error + ((int \<times> int) list \<times> BPlusTree)" where
  \<comment> \<open>a full scan: \<^verbatim>\<open>for (auto it = tree.Begin(); !it.IsEnd(); ++it) out.push_back(*it);\<close>\<close>
  "scan fuel t =
     ebind (Begin fuel t) (\<lambda>(it, t1).
     ebind (scan_loop fuel (buffer_pool_manager t1) it []) (\<lambda>(out, s).
     Inr (out, t1\<lparr>buffer_pool_manager := s\<rparr>)))"

definition page_entries :: "BPlusTreePage \<Rightarrow> (int \<times> int) list" where
  \<comment> \<open>the entries of a page below its size\<close>
  "page_entries p = map (array_at (array p)) [0..cur_size p - 1]"

definition resident_leaves ::
  "BPlusTree \<Rightarrow> (page_id_t \<times> page_id_t \<times> page_id_t \<times> (int \<times> int) list) list" where
  \<comment> \<open>the leaf pages in the frames of the pool: page id, parent page id, next page id, entries\<close>
  "resident_leaves t =
     map (\<lambda>p. (page_id p, parent_page_id (data p), next_page_id (data p), page_entries (data p)))
       (filter (\<lambda>p. page_id p \<noteq> INVALID_PAGE_ID \<and> IsLeafPage (data p))
          (pages (buffer_pool_manager t)))"

definition resident_internals ::
  "BPlusTree \<Rightarrow> (page_id_t \<times> page_id_t \<times> (int \<times> int) list) list" where
  \<comment> \<open>the internal pages in the frames of the pool: page id, parent page id, entries (the key
      of entry 0 is not used)\<close>
  "resident_internals t =
     map (\<lambda>p. (page_id p, parent_page_id (data p), page_entries (data p)))
       (filter (\<lambda>p. page_id p \<noteq> INVALID_PAGE_ID \<and> page_type (data p) = INTERNAL_PAGE)
          (pages (buffer_pool_manager t)))"

section \<open>Deletion\<close>

text \<open>
  Modelled from the spec: \<^verbatim>\<open>GetMinSize\<close> of \<^verbatim>\<open>BPlusTreePage\<close> is not among the sources. The
  spec gives the minimum of an internal page as \<open>ceil(max/2)\<close> and of a leaf page as
  \<open>ceil((max-1)/2)\<close>.
\<close>

definition GetMinSize :: "BPlusTreePage \<Rightarrow> int" where
  \<comment> \<open>\<open>ceil(x/2)\<close> is \<open>(x + 1) div 2\<close>\<close>
  "GetMinSize p =
     (if IsLeafPage p then ((max_size p - 1) + 1) div 2 else (max_size p + 1) div 2)"


definition Leaf_Remove :: "BPlusTreePage \<Rightarrow> int \<Rightarrow> BPlusTreePage" where
  "Leaf_Remove p k =
     (let index = Leaf_FindIndex p k
      in if KeyAt p index \<noteq> k then p
         else
           (let sz = cur_size p
            in if sz \<le> index then p
               else IncreaseSize (p\<lparr>array := shift_left (array p) index sz\<rparr>) (- 1)))"

definition Leaf_PopBack :: "BPlusTreePage \<Rightarrow> (int \<times> int) \<times> BPlusTreePage" where
  "Leaf_PopBack p = (array_at (array p) (cur_size p - 1), IncreaseSize p (- 1))"

definition Leaf_PushFront :: "BPlusTreePage \<Rightarrow> int \<times> int \<Rightarrow> BPlusTreePage" where
  "Leaf_PushFront p kv =
     (let old_size = cur_size p;
          p1 = IncreaseSize p 1;
          a = shift_right (array p1) 0 old_size
      in p1\<lparr>array := array_set a 0 kv\<rparr>)"

definition Leaf_PopFront :: "BPlusTreePage \<Rightarrow> (int \<times> int) \<times> BPlusTreePage" where
  "Leaf_PopFront p =
     (let kv = array_at (array p) 0;
          sz = cur_size p
      in (kv, IncreaseSize (p\<lparr>array := shift_left (array p) 0 sz\<rparr>) (- 1)))"

definition Leaf_PushBack :: "BPlusTreePage \<Rightarrow> int \<times> int \<Rightarrow> BPlusTreePage" where
  "Leaf_PushBack p kv = IncreaseSize (p\<lparr>array := array_set (array p) (cur_size p) kv\<rparr>) 1"


text \<open>
  Modelled from the spec: \<^verbatim>\<open>PopBack\<close>, \<^verbatim>\<open>PushFront\<close>, \<^verbatim>\<open>PopFront\<close>, \<^verbatim>\<open>PushBack\<close> and
  \<^verbatim>\<open>RemoveByIndex\<close> of the internal page are called by the tree and are not in the text of the
  internal page among the sources. The first four move one entry at an end of the page, as
  the leaf page's functions of the same names do; \<^verbatim>\<open>RemoveByIndex\<close> removes the entry at an
  index (the separator and the child right of it) and closes the gap.
\<close>

definition Internal_PopBack :: "BPlusTreePage \<Rightarrow> (int \<times> int) \<times> BPlusTreePage" where
  "Internal_PopBack p = Leaf_PopBack p"

definition Internal_PushFront :: "BPlusTreePage \<Rightarrow> int \<times> int \<Rightarrow> BPlusTreePage" where
  "Internal_PushFront p kv = Leaf_PushFront p kv"

definition Internal_PopFront :: "BPlusTreePage \<Rightarrow> (int \<times> int) \<times> BPlusTreePage" where
  "Internal_PopFront p = Leaf_PopFront p"

definition Internal_PushBack :: "BPlusTreePage \<Rightarrow> int \<times> int \<Rightarrow> BPlusTreePage" where
  "Internal_PushBack p kv = Leaf_PushBack p kv"

definition Internal_RemoveByIndex :: "BPlusTreePage \<Rightarrow> int \<Rightarrow> BPlusTreePage" where
  "Internal_RemoveByIndex p index =
     IncreaseSize (p\<lparr>array := shift_left (array p) index (cur_size p)\<rparr>) (- 1)"

text \<open>
  \<^verbatim>\<open>UpdataParentKey\<close>, \<^verbatim>\<open>RedistributeBrother\<close> and \<^verbatim>\<open>MergeBrother\<close> cast the page pointer that
  \<^verbatim>\<open>FetchPage\<close> returns to a tree page without \<^verbatim>\<open>GetData()\<close>. The class \<^verbatim>\<open>Page\<close> is not among the
  sources; its data are taken to lie at the address of the page, so that the cast gives the
  tree page in the frame. An \<^verbatim>\<open>assert\<close> is evaluated, and ends the run with \<open>AssertionFailed\<close>
  when it fails; the \<^verbatim>\<open>DeletePage\<close> calls of \<^verbatim>\<open>MergeBrother\<close> stand inside an \<^verbatim>\<open>assert\<close>.
\<close>

definition UpdataParentKey :: "BPlusTree \<Rightarrow> int \<Rightarrow> int \<Rightarrow> frame_id_t \<Rightarrow> error + BPlusTree" where
  "UpdataParentKey t old_key new_key cur_node =
     (let parent_id = parent_page_id (node t cur_node)
      in if parent_id = 0 then Inl AssertionFailed
         else
           ebind (FetchPage NullPointer t parent_id) (\<lambda>(parent_node, t1).
             (let index = Internal_FindIndex (node t1 parent_node) old_key - 1
              in if tree_page_id (node t1 cur_node) \<noteq> ValueAt (node t1 parent_node) index
                 then Inl AssertionFailed
                 else if KeyAt (node t1 parent_node) index = old_key
                 then UnpinPage (set_node_data t1 parent_node
                                   (SetKeyAt (node t1 parent_node) index new_key)) parent_id True
                 else UnpinPage t1 parent_id False)))"

definition redistribute_left ::
  "BPlusTree \<Rightarrow> page_id_t \<Rightarrow> frame_id_t \<Rightarrow> int \<Rightarrow> frame_id_t \<Rightarrow> error + (bool \<times> BPlusTree)" where
  \<comment> \<open>the block of \<^verbatim>\<open>RedistributeBrother\<close> under \<^verbatim>\<open>if (index - 1 > 0)\<close>; the result says whether
      the function has returned true in it\<close>
  "redistribute_left t parent_id parent_node index cur_node =
     (let left_brother_page_id = ValueAt (node t parent_node) (index - 1)
      in ebind (FetchPage NullPointer t left_brother_page_id) (\<lambda>(left_brother_node, t1).
           if GetMinSize (node t1 left_brother_node) < cur_size (node t1 left_brother_node) then
             (let t5 =
                (if IsLeafPage (node t1 left_brother_node) then
                   (let popped = Leaf_PopBack (node t1 left_brother_node);
                        t2 = set_node_data t1 left_brother_node (snd popped);
                        t3 = set_node_data t2 cur_node (Leaf_PushFront (node t2 cur_node) (fst popped))
                    in set_node_data t3 parent_node
                         (SetKeyAt (node t3 parent_node) index (KeyAt (node t3 cur_node) 0)))
                 else
                   (let popped = Internal_PopBack (node t1 left_brother_node);
                        t2 = set_node_data t1 left_brother_node (snd popped);
                        parent_key = KeyAt (node t2 parent_node) index;
                        t3 = set_node_data t2 parent_node
                               (SetKeyAt (node t2 parent_node) index (fst (fst popped)));
                        t4 = set_node_data t3 cur_node (SetKeyAt (node t3 cur_node) 0 parent_key)
                    in set_node_data t4 cur_node (Internal_PushFront (node t4 cur_node) (fst popped))))
              in ebind (UnpinPage t5 left_brother_page_id True) (\<lambda>t6.
                 ebind (UnpinPage t6 parent_id True) (\<lambda>t7. Inr (True, t7))))
           else Inr (False, t1)))"

definition redistribute_right ::
  "BPlusTree \<Rightarrow> page_id_t \<Rightarrow> frame_id_t \<Rightarrow> int \<Rightarrow> frame_id_t \<Rightarrow> error + (bool \<times> BPlusTree)" where
  \<comment> \<open>the block of \<^verbatim>\<open>RedistributeBrother\<close> under \<^verbatim>\<open>if (index + 1 < parent_node->GetSize())\<close>\<close>
  "redistribute_right t parent_id parent_node index cur_node =
     (let right_brother_page_id = ValueAt (node t parent_node) (index + 1)
      in ebind (FetchPage NullPointer t right_brother_page_id) (\<lambda>(right_brother_node, t1).
           if GetMinSize (node t1 right_brother_node) < cur_size (node t1 right_brother_node) then
             (let t5 =
                (if IsLeafPage (node t1 right_brother_node) then
                   (let popped = Leaf_PopFront (node t1 right_brother_node);
                        t2 = set_node_data t1 right_brother_node (snd popped);
                        t3 = set_node_data t2 cur_node (Leaf_PushBack (node t2 cur_node) (fst popped))
                    in set_node_data t3 parent_node
                         (SetKeyAt (node t3 parent_node) (index + 1)
                            (KeyAt (node t3 right_brother_node) 0)))
                 else
                   (let parent_key = KeyAt (node t1 parent_node) (index + 1);
                        t2 = set_node_data t1 right_brother_node
                               (SetKeyAt (node t1 right_brother_node) 0 parent_key);
                        popped = Internal_PopFront (node t2 right_brother_node);
                        t3 = set_node_data t2 right_brother_node (snd popped);
                        t4 = set_node_data t3 parent_node
                               (SetKeyAt (node t3 parent_node) (index + 1)
                                  (KeyAt (node t3 right_brother_node) 0))
                    in set_node_data t4 cur_node (Internal_PushBack (node t4 cur_node) (fst popped))))
              in ebind (UnpinPage t5 right_brother_page_id True) (\<lambda>t6.
                 ebind (UnpinPage t6 parent_id True) (\<lambda>t7. Inr (True, t7))))
           else Inr (False, t1)))"

definition RedistributeBrother ::
  "BPlusTree \<Rightarrow> int \<Rightarrow> frame_id_t \<Rightarrow> error + (bool \<times> BPlusTree)" where
  "RedistributeBrother t k cur_node =
     (let parent_id = parent_page_id (node t cur_node)
      in if parent_id = 0 then Inl AssertionFailed
         else
           ebind (FetchPage NullPointer t parent_id) (\<lambda>(parent_node, t1).
             (let index = Internal_FindIndex (node t1 parent_node) k - 1
              in if tree_page_id (node t1 cur_node) \<noteq> ValueAt (node t1 parent_node) index
                 then Inl AssertionFailed
                 else
                   ebind (if 0 < index - 1
                          then redistribute_left t1 parent_id parent_node index cur_node
                          else Inr (False, t1)) (\<lambda>(returned, t2).
                     if returned then Inr (True, t2)
                     else
                       ebind (if index + 1 < cur_size (node t2 parent_node)
                              then redistribute_right t2 parent_id parent_node index cur_node
                              else Inr (False, t2)) (\<lambda>(returned, t3).
                         if returned then Inr (True, t3)
                         else ebind (UnpinPage t3 parent_id False) (\<lambda>t4. Inr (False, t4)))))))"

definition push_back_all ::
  "(BPlusTreePage \<Rightarrow> int \<times> int \<Rightarrow> BPlusTreePage) \<Rightarrow>
   BPlusTree \<Rightarrow> frame_id_t \<Rightarrow> frame_id_t \<Rightarrow> int \<Rightarrow> BPlusTree" where
  \<comment> \<open>\<^verbatim>\<open>for (int i = 0; i < n; i++) dst->PushBack(std::make_pair(src->KeyAt(i), src->ValueAt(i)));\<close>
      with the \<^verbatim>\<open>PushBack\<close> of the leaf page or of the internal page\<close>
  "push_back_all push_back t dst src n =
     foldl (\<lambda>t i. set_node_data t dst
                     (push_back (node t dst) (KeyAt (node t src) i, ValueAt (node t src) i)))
       t [0..n - 1]"

definition assert_DeletePage :: "BPlusTree \<Rightarrow> page_id_t \<Rightarrow> error + BPlusTree" where
  \<comment> \<open>\<^verbatim>\<open>assert(buffer_pool_manager_->DeletePage(page_id));\<close>\<close>
  "assert_DeletePage t pid =
     (let r = DeletePage t pid in if fst r then Inr (snd r) else Inl AssertionFailed)"

fun MergeBrother :: "nat \<Rightarrow> BPlusTree \<Rightarrow> int \<Rightarrow> frame_id_t \<Rightarrow> error + BPlusTree" where
  "MergeBrother 0 t k cur_node = Inl OutOfFuel"
| "MergeBrother (Suc fuel) t k cur_node =
     (if IsRootPage (node t cur_node) then
        (if IsLeafPage (node t cur_node) then Inl AssertionFailed
         else if cur_size (node t cur_node) = 1 then
           (let new_root_page_id = ValueAt (node t cur_node) 0;
                t1 = snd (DeletePage t (root_page_id t));
                t2 = t1\<lparr>root_page_id := new_root_page_id\<rparr>
            in ebind (FetchPage NullPointer t2 new_root_page_id) (\<lambda>(new_root_node, t3).
               ebind (UpdateRootPageId
                        (set_node_data t3 new_root_node
                           ((node t3 new_root_node)\<lparr>parent_page_id := - 1\<rparr>)) 0) (\<lambda>t4.
               UnpinPage t4 new_root_page_id True)))
         else Inr t)
      else if GetMinSize (node t cur_node) \<le> cur_size (node t cur_node) then Inr t
      else
        ebind (RedistributeBrother t k cur_node) (\<lambda>(redistributed, t1).
          if redistributed then Inr t1
          else
            (let parent_page_id' = parent_page_id (node t1 cur_node)
             in ebind (FetchPage NullPointer t1 parent_page_id') (\<lambda>(parent_node, t2).
                (let index = Internal_FindIndex (node t2 parent_node) k - 1
                 in if tree_page_id (node t2 cur_node) \<noteq> ValueAt (node t2 parent_node) index
                    then Inl AssertionFailed
                    else
                      ebind
                        (if 0 < index - 1 then
                           (let left_brother_page_id = ValueAt (node t2 parent_node) (index - 1)
                            in ebind (FetchPage NullPointer t2 left_brother_page_id)
                                 (\<lambda>(left_brother_node, t3).
                                 if IsLeafPage (node t3 cur_node) \<and>
                                    cur_size (node t3 left_brother_node) + cur_size (node t3 cur_node)
                                      < max_size (node t3 cur_node)
                                 then
                                   (let t4 = push_back_all Leaf_PushBack t3 left_brother_node cur_node
                                               (cur_size (node t3 cur_node));
                                        t5 = set_node_data t4 cur_node ((node t4 cur_node)\<lparr>cur_size := 0\<rparr>);
                                        t6 = set_node_data t5 parent_node
                                               (Internal_RemoveByIndex (node t5 parent_node) index)
                                    in ebind (MergeBrother fuel t6 k parent_node) (\<lambda>t7.
                                       ebind (UnpinPage t7 left_brother_page_id True) (\<lambda>t8.
                                       ebind (UnpinPage t8 parent_page_id' True) (\<lambda>t9.
                                       ebind (assert_DeletePage t9 (tree_page_id (node t9 cur_node)))
                                         (\<lambda>t10. Inr (True, t10))))))
                                 else if \<not> IsLeafPage (node t3 cur_node) \<and>
                                    cur_size (node t3 left_brother_node) + cur_size (node t3 cur_node)
                                      \<le> max_size (node t3 cur_node)
                                 then
                                   (let t4 = set_node_data t3 cur_node
                                               (SetKeyAt (node t3 cur_node) 0
                                                  (KeyAt (node t3 parent_node) index));
                                        t5 = push_back_all Internal_PushBack t4 left_brother_node left_brother_node
                                               (cur_size (node t3 cur_node));
                                        t6 = set_node_data t5 cur_node ((node t5 cur_node)\<lparr>cur_size := 0\<rparr>);
                                        t7 = set_node_data t6 parent_node
                                               (Internal_RemoveByIndex (node t6 parent_node) index)
                                    in ebind (MergeBrother fuel t7 k parent_node) (\<lambda>t8.
                                       ebind (UnpinPage t8 left_brother_page_id True) (\<lambda>t9.
                                       ebind (UnpinPage t9 parent_page_id' True) (\<lambda>t10.
                                       ebind (assert_DeletePage t10 (tree_page_id (node t10 cur_node)))
                                         (\<lambda>t11. Inr (True, t11))))))
                                 else ebind (UnpinPage t3 parent_page_id' False) (\<lambda>t4. Inr (False, t4))))
                         else Inr (False, t2)) (\<lambda>(returned, t3).
                        if returned then Inr t3
                        else
                          ebind
                            (if index + 1 < cur_size (node t3 parent_node) then
                               (let right_brother_page_id = ValueAt (node t3 parent_node) (index + 1)
                                in ebind (FetchPage NullPointer t3 right_brother_page_id)
                                     (\<lambda>(right_brother_node, t4).
                                     if IsLeafPage (node t4 cur_node) \<and>
                                        cur_size (node t4 right_brother_node) + cur_size (node t4 cur_node)
                                          < max_size (node t4 cur_node)
                                     then
                                       (let t5 = push_back_all Leaf_PushBack t4 cur_node right_brother_node
                                                   (cur_size (node t4 right_brother_node));
                                            t6 = set_node_data t5 right_brother_node
                                                   ((node t5 right_brother_node)\<lparr>cur_size := 0\<rparr>);
                                            t7 = set_node_data t6 parent_node
                                                   (Internal_RemoveByIndex (node t6 parent_node) (index + 1))
                                        in ebind (MergeBrother fuel t7 k parent_node) (\<lambda>t8.
                                           ebind (UnpinPage t8 right_brother_page_id True) (\<lambda>t9.
                                           ebind (UnpinPage t9 parent_page_id' True) (\<lambda>t10.
                                           ebind (assert_DeletePage t10
                                                    (tree_page_id (node t10 right_brother_node)))
                                             (\<lambda>t11. Inr (True, t11))))))
                                     else if \<not> IsLeafPage (node t4 cur_node) \<and>
                                        cur_size (node t4 right_brother_node) + cur_size (node t4 cur_node)
                                          \<le> max_size (node t4 cur_node)
                                     then
                                       (let t5 = set_node_data t4 right_brother_node
                                                   (SetKeyAt (node t4 right_brother_node) 0
                                                      (KeyAt (node t4 parent_node) (index + 1)));
                                            t6 = push_back_all Internal_PushBack t5 cur_node right_brother_node
                                                   (cur_size (node t4 right_brother_node));
                                            t7 = set_node_data t6 right_brother_node
                                                   ((node t6 right_brother_node)\<lparr>cur_size := 0\<rparr>);
                                            t8 = set_node_data t7 parent_node
                                                   (Internal_RemoveByIndex (node t7 parent_node) (index + 1))
                                        in ebind (MergeBrother fuel t8 k parent_node) (\<lambda>t9.
                                           ebind (UnpinPage t9 right_brother_page_id True) (\<lambda>t10.
                                           ebind (UnpinPage t10 parent_page_id' True) (\<lambda>t11.
                                           ebind (assert_DeletePage t11
                                                    (tree_page_id (node t11 right_brother_node)))
                                             (\<lambda>t12. Inr (True, t12))))))
                                     else Inr (False, t4)))
                             else Inr (False, t3)) (\<lambda>(returned, t4).
                            if returned then Inr t4
                            else ebind (UnpinPage t4 parent_page_id' False)
                                   (\<lambda>t5. Inl AssertionFailed))))))))"

definition Remove :: "nat \<Rightarrow> BPlusTree \<Rightarrow> int \<Rightarrow> error + BPlusTree" where
  "Remove fuel t k =
     (if IsEmpty t then Inr t
      else
        ebind (FindLeaf fuel t k) (\<lambda>(leaf, t1).
          (let leaf_old_size = cur_size (node t1 leaf)
           in if \<not> 0 < leaf_old_size then Inl AssertionFailed
              else
                (let old_key0 = KeyAt (node t1 leaf) 0;
                     t2 = set_node_data t1 leaf (Leaf_Remove (node t1 leaf) k)
                 in if IsRootPage (node t2 leaf) then Inr t2
                    else if GetMinSize (node t2 leaf) < leaf_old_size then
                      (if \<not> 1 < leaf_old_size then Inl AssertionFailed
                       else if old_key0 = k
                       then UpdataParentKey t2 k (KeyAt (node t2 leaf) 0) leaf
                       else Inr t2)
                    else MergeBrother fuel t2 k leaf))))"

chapter \<open>The storage engine: properties\<close>

section \<open>The LRU-K replacer\<close>

lemma to_size_t_nonneg: "0 \<le> f \<Longrightarrow> f < 2 ^ 64 \<Longrightarrow> to_size_t f = f"
  by (simp add: to_size_t_def)

lemma to_size_t_neg: "- (2 ^ 64) \<le> f \<Longrightarrow> f < 0 \<Longrightarrow> to_size_t f = f + 2 ^ 64"
proof -
  assume a: "- (2 ^ 64) \<le> f" "f < 0"
  have "(f + 2 ^ 64) mod 2 ^ 64 = f + 2 ^ 64"
    using a by (intro mod_pos_pos_trivial) auto
  then show ?thesis by (simp add: to_size_t_def)
qed

lemma ebind_Inl: "ebind (Inl e) f = Inl e"
  by (simp add: ebind_def)

lemma ebind_Inr: "ebind (Inr x) f = f x"
  by (simp add: ebind_def)

lemma ebind_Inl_iff: "ebind m f = Inl e \<longleftrightarrow> m = Inl e \<or> (\<exists>x. m = Inr x \<and> f x = Inl e)"
  by (cases m) (simp_all add: ebind_def)

lemma ebind_no_throw:
  "m \<noteq> Inl e \<Longrightarrow> (\<And>x. f x \<noteq> Inl e) \<Longrightarrow> ebind m f \<noteq> Inl e"
  by (cases m) (simp_all add: ebind_def)

subsection \<open>The earlier text\<close>

lemma deref_no_throw: "deref h p \<noteq> Inl InvalidFrameId"
  by (simp add: deref_def split: option.splits)

lemma store_node_no_throw: "store_node h p g \<noteq> Inl InvalidFrameId"
  by (cases p) (simp_all add: store_node_def ebind_no_throw deref_no_throw)

lemma draft_unlink_no_throw: "draft_unlink h p \<noteq> Inl InvalidFrameId"
  unfolding draft_unlink_def
  by (intro ebind_no_throw deref_no_throw store_node_no_throw)

lemma draft_lock_no_throw: "draft_lock d \<noteq> Inl InvalidFrameId"
  by (simp add: draft_lock_def)

text \<open>
  \<^verbatim>\<open>Evict\<close> of the earlier text does not return, whatever the state of the replacer: it holds
  \<^verbatim>\<open>latch_\<close> when it calls \<^verbatim>\<open>Size()\<close>, and \<^verbatim>\<open>Size()\<close> waits for \<^verbatim>\<open>latch_\<close>.
\<close>

lemma Draft_Evict_blocks: "Draft_Evict fuel d out_null = Inl Blocked"
  by (simp add: Draft_Evict_def Draft_Size_def draft_lock_def ebind_def)

lemma Draft_RecordAccess_no_throw: "Draft_RecordAccess fuel d f \<noteq> Inl InvalidFrameId"
  unfolding Draft_RecordAccess_def Let_def
  by (auto simp: ebind_Inl_iff draft_lock_no_throw store_node_no_throw deref_no_throw
        draft_unlink_no_throw Draft_Evict_blocks split: option.splits if_splits)

lemma Draft_SetEvictable_no_throw: "Draft_SetEvictable d f b \<noteq> Inl InvalidFrameId"
  unfolding Draft_SetEvictable_def
  by (intro ebind_no_throw draft_lock_no_throw deref_no_throw store_node_no_throw) simp

lemmas draft_eval =
  DraftReplacer_new_def DraftNode_new_def deref_def store_node_def draft_unlink_def
  draft_lock_def draft_unlock_def Draft_Size_def Draft_Evict_def Draft_RecordAccess_def
  Draft_SetEvictable_def Draft_Remove_def draft_num_evictable_def Draft_run_def
  ebind_Inl ebind_Inr

subsection \<open>The range check\<close>

lemma RecordAccess_no_error:
  "to_size_t f \<le> replacer_size r \<Longrightarrow> fst (LRUK_RecordAccess r f) = None"
  by (simp add: LRUK_RecordAccess_def Let_def split: option.splits)

lemma SetEvictable_no_error:
  "to_size_t f \<le> replacer_size r \<Longrightarrow> fst (LRUK_SetEvictable r f b) = None"
  by (simp add: LRUK_SetEvictable_def Let_def split: option.splits)

text \<open>
  Claim C10, as amended. In the later text, for a 32-bit frame id \<open>f\<close> and a replacer of
  \<open>replacer_size\<close> frames, \<open>0 \<le> replacer_size < 2^63\<close>, \<open>RecordAccess\<close> and \<open>SetEvictable\<close>
  throw, leaving the replacer as it was, when \<open>f\<close> is negative or greater than
  \<open>replacer_size\<close>; they do not throw when \<open>0 \<le> f \<le> replacer_size\<close>: the check is
  \<^verbatim>\<open>static_cast<size_t>(frame_id) > replacer_size_\<close>, so the frame id equal to the number of
  frames is accepted. The earlier text has no range check: its \<open>RecordAccess\<close> and
  \<open>SetEvictable\<close> throw for no frame id and no state of the replacer.
\<close>

theorem frame_id_check:
  assumes "is_int32 f" and "0 \<le> replacer_size r" and "replacer_size r < 2 ^ 63"
  shows "(f < 0 \<or> replacer_size r < f \<longrightarrow>
            LRUK_RecordAccess r f = (Some InvalidFrameId, r) \<and>
            LRUK_SetEvictable r f b = (Some InvalidFrameId, r)) \<and>
         (0 \<le> f \<and> f \<le> replacer_size r \<longrightarrow>
            fst (LRUK_RecordAccess r f) = None \<and> fst (LRUK_SetEvictable r f b) = None) \<and>
         Draft_RecordAccess fuel d f \<noteq> Inl InvalidFrameId \<and>
         Draft_SetEvictable d f b \<noteq> Inl InvalidFrameId"
proof -
  have later: "(f < 0 \<or> replacer_size r < f \<longrightarrow>
            LRUK_RecordAccess r f = (Some InvalidFrameId, r) \<and>
            LRUK_SetEvictable r f b = (Some InvalidFrameId, r)) \<and>
         (0 \<le> f \<and> f \<le> replacer_size r \<longrightarrow>
            fst (LRUK_RecordAccess r f) = None \<and> fst (LRUK_SetEvictable r f b) = None)"
  proof (cases "f < 0")
    case True
    have "- (2 ^ 64) \<le> f" using assms(1) by (simp add: is_int32_def)
    then have "to_size_t f = f + 2 ^ 64" using True by (rule to_size_t_neg)
    moreover have "- (2 ^ 31) \<le> f" using assms(1) by (simp add: is_int32_def)
    ultimately have "replacer_size r < to_size_t f" using assms(3) by simp
    then show ?thesis using True
      by (simp add: LRUK_RecordAccess_def LRUK_SetEvictable_def)
  next
    case False
    then have "to_size_t f = f" using assms(1) by (simp add: is_int32_def to_size_t_nonneg)
    then show ?thesis using False
      by (auto simp: LRUK_RecordAccess_def LRUK_SetEvictable_def Let_def split: option.splits)
  qed
  show ?thesis
    using later Draft_RecordAccess_no_throw [of fuel d f] Draft_SetEvictable_no_throw [of d f b]
    by (intro conjI) simp_all
qed

theorem frame_id_check_witness:
  "LRUK_RecordAccess (LRUKReplacer_new 3 2) (- 1) = (Some InvalidFrameId, LRUKReplacer_new 3 2) \<and>
   LRUK_SetEvictable (LRUKReplacer_new 3 2) 4 True = (Some InvalidFrameId, LRUKReplacer_new 3 2) \<and>
   fst (LRUK_RecordAccess (LRUKReplacer_new 3 2) 3) = None \<and>
   fst (LRUK_SetEvictable (LRUKReplacer_new 3 2) 0 True) = None \<and>
   Draft_RecordAccess 10 (DraftReplacer_new 3 2) (- 1) \<noteq> Inl InvalidFrameId \<and>
   Draft_SetEvictable (DraftReplacer_new 3 2) 4 True \<noteq> Inl InvalidFrameId"
  using frame_id_check [of "- 1" "LRUKReplacer_new 3 2" True 10 "DraftReplacer_new 3 2"]
        frame_id_check [of 4 "LRUKReplacer_new 3 2" True 10 "DraftReplacer_new 3 2"]
        frame_id_check [of 3 "LRUKReplacer_new 3 2" True]
        frame_id_check [of 0 "LRUKReplacer_new 3 2" True]
  by (simp add: is_int32_def LRUKReplacer_new_def)

text \<open>
  The frame id 3 is outside \<open>[0, 3)\<close>, and neither operation of the later text throws on a
  replacer of 3 frames. The frame id \<open>-1\<close> is outside \<open>[0, 3)\<close>, and the earlier text admits it
  and marks it evictable, on a replacer of 3 frames, without an error.
\<close>

theorem frame_id_range_counterexample:
  "\<not> (0 \<le> (3::int) \<and> (3::int) < 3) \<and>
   fst (LRUK_RecordAccess (LRUKReplacer_new 3 2) 3) = None \<and>
   fst (LRUK_SetEvictable (LRUKReplacer_new 3 2) 3 True) = None \<and>
   \<not> (0 \<le> (- 1::int) \<and> (- 1::int) < 3) \<and>
   (case Draft_run 10 3 2 [OpRecordAccess (- 1), OpSetEvictable (- 1) True] of
      Inl e \<Rightarrow> False
    | Inr d \<Rightarrow> map fst (node_map d) = [- 1] \<and> draft_num_evictable d = 1)"
  by (simp add: LRUK_RecordAccess_def LRUK_SetEvictable_def LRUKReplacer_new_def
      to_size_t_def map_lookup_def draft_eval)

subsection \<open>The size\<close>

lemma cnt_simps [simp]:
  "ecount [] = 0"
  "ecount (n # ns) = (if evictable n then 1 else 0) + ecount ns"
  "ecount (xs @ ys) = ecount xs + ecount ys"
  by (simp_all add: ecount_def)

lemma map_find_None_iff: "map_find ns f = None \<longleftrightarrow> f \<notin> key ` set ns"
  by (induction ns) auto

lemma map_find_Some_mem: "map_find ns f = Some n \<Longrightarrow> n \<in> set ns \<and> key n = f"
  by (induction ns) (auto split: if_splits)

lemma map_find_distinct: "distinct (map key ns) \<Longrightarrow> n \<in> set ns \<Longrightarrow> map_find ns (key n) = Some n"
  by (induction ns) auto

lemma unlink_notin: "f \<notin> key ` set ns \<Longrightarrow> unlink f ns = ns"
  by (induction ns) (auto simp: unlink_def)

lemma set_node_notin: "f \<notin> key ` set ns \<Longrightarrow> set_node f n' ns = ns"
  by (induction ns) (auto simp: set_node_def)

lemma unlink_append: "unlink f (xs @ ys) = unlink f xs @ unlink f ys"
  by (simp add: unlink_def)

lemma set_node_append: "set_node f n' (xs @ ys) = set_node f n' xs @ set_node f n' ys"
  by (simp add: set_node_def)

lemma set_unlink: "set (unlink f ns) = {n \<in> set ns. key n \<noteq> f}"
  by (auto simp: unlink_def)

lemma keys_unlink: "map key (unlink f ns) = filter (\<lambda>g. g \<noteq> f) (map key ns)"
  by (induction ns) (auto simp: unlink_def)

lemma keys_set_node: "key n' = f \<Longrightarrow> map key (set_node f n' ns) = map key ns"
  by (induction ns) (auto simp: set_node_def)

lemma cnt_unlink:
  "distinct (map key ns) \<Longrightarrow> n \<in> set ns \<Longrightarrow>
   ecount (unlink (key n) ns) = ecount ns - (if evictable n then 1 else 0)"
proof (induction ns)
  case Nil
  then show ?case by simp
next
  case (Cons a ns)
  show ?case
  proof (cases "a = n")
    case True
    then have "key n \<notin> key ` set ns" using Cons.prems(1) by auto
    then have "unlink (key n) ns = ns" by (rule unlink_notin)
    then show ?thesis using True by (simp add: unlink_def)
  next
    case False
    then have "n \<in> set ns" using Cons.prems(2) by simp
    moreover have "key a \<noteq> key n" using Cons.prems(1) \<open>n \<in> set ns\<close> by auto
    ultimately show ?thesis using Cons by (simp add: unlink_def)
  qed
qed

lemma cnt_set_node:
  "distinct (map key ns) \<Longrightarrow> n \<in> set ns \<Longrightarrow>
   ecount (set_node (key n) n' ns) =
     ecount ns - (if evictable n then 1 else 0) + (if evictable n' then 1 else 0)"
proof (induction ns)
  case Nil
  then show ?case by simp
next
  case (Cons a ns)
  show ?case
  proof (cases "a = n")
    case True
    then have "key n \<notin> key ` set ns" using Cons.prems(1) by auto
    then have "set_node (key n) n' ns = ns" by (rule set_node_notin)
    then show ?thesis using True by (simp add: set_node_def)
  next
    case False
    then have "n \<in> set ns" using Cons.prems(2) by simp
    moreover have "key a \<noteq> key n" using Cons.prems(1) \<open>n \<in> set ns\<close> by auto
    ultimately show ?thesis using Cons by (simp add: set_node_def)
  qed
qed

lemma first_evictable_Some: "first_evictable ns = Some n \<Longrightarrow> n \<in> set ns \<and> evictable n"
  by (induction ns) (auto split: if_splits)

lemma first_evictable_None: "first_evictable ns = None \<longleftrightarrow> (\<forall>n\<in>set ns. \<not> evictable n)"
  by (induction ns) auto

lemma mod_step:
  fixes a b c d m :: int
  shows "(a + b - c) mod m = 0 \<Longrightarrow> ((a + d) mod m + b - (c + d)) mod m = 0"
    and "(a + b - c) mod m = 0 \<Longrightarrow> (a + (b + d) mod m - (c + d)) mod m = 0"
proof -
  assume h: "(a + b - c) mod m = 0"
  have "((a + d) mod m + b - (c + d)) mod m = ((a + d) mod m + (b - (c + d))) mod m"
    by (simp add: algebra_simps)
  also have "\<dots> = ((a + d) + (b - (c + d))) mod m"
    by (rule mod_add_left_eq)
  also have "(a + d) + (b - (c + d)) = a + b - c" by simp
  finally show "((a + d) mod m + b - (c + d)) mod m = 0" using h by simp
  have "(a + (b + d) mod m - (c + d)) mod m = ((b + d) mod m + (a - (c + d))) mod m"
    by (simp add: algebra_simps)
  also have "\<dots> = ((b + d) + (a - (c + d))) mod m"
    by (rule mod_add_left_eq)
  also have "(b + d) + (a - (c + d)) = a + b - c" by simp
  finally show "(a + (b + d) mod m - (c + d)) mod m = 0" using h by simp
qed

lemma num_evictable_cnt: "int (num_evictable r) = ecount (fifo_list r) + ecount (lru_list r)"
  by (simp add: num_evictable_def tracked_def ecount_def)

lemma replacer_inv_alt:
  "replacer_inv r \<longleftrightarrow>
     distinct (map key (fifo_list r @ lru_list r)) \<and>
     list_all (\<lambda>n. is_int32 (key n)) (fifo_list r @ lru_list r) \<and>
     (lru_size r + fifo_size r - ecount (fifo_list r @ lru_list r)) mod 2 ^ 64 = 0"
  by (simp add: replacer_inv_def num_evictable_cnt tracked_def)

lemma distinct_keys_unlink: "distinct (map key ns) \<Longrightarrow> distinct (map key (unlink f ns))"
  by (simp add: keys_unlink)

lemma distinct_keys_move:
  assumes "distinct (map key (xs @ ys))" and "key n' = f"
  shows "distinct (map key (unlink f xs @ n' # unlink f ys))"
  using assms by (auto simp: keys_unlink set_unlink)

lemma list_all_unlink: "list_all P ns \<Longrightarrow> list_all P (unlink f ns)"
  by (simp add: unlink_def list_all_iff)

lemma list_all_set_node: "list_all P ns \<Longrightarrow> P n' \<Longrightarrow> list_all P (set_node f n' ns)"
  by (auto simp: set_node_def list_all_iff)

lemma inv_new:  "replacer_inv (LRUKReplacer_new n k)"
  by (simp add: replacer_inv_alt LRUKReplacer_new_def)

lemma inv_RecordAccess:
  assumes inv: "replacer_inv r" and f: "is_int32 f"
  shows "replacer_inv (snd (LRUK_RecordAccess r f))"
proof (cases "replacer_size r < to_size_t f")
  case True
  then show ?thesis using inv by (simp add: LRUK_RecordAccess_def)
next
  case ok: False
  let ?T = "fifo_list r @ lru_list r"
  from inv have d: "distinct (map key ?T)" and i: "list_all (\<lambda>n. is_int32 (key n)) ?T"
    and s: "(lru_size r + fifo_size r - ecount ?T) mod 2 ^ 64 = 0"
    by (simp_all add: replacer_inv_alt)
  show ?thesis
  proof (cases "map_lookup r f")
    case None
    then have "f \<notin> key ` set ?T" by (simp add: map_lookup_def map_find_None_iff)
    then show ?thesis using ok None d i s f
      by (auto simp: LRUK_RecordAccess_def replacer_inv_alt LinkedNode_new_def)
  next
    case (Some n)
    then have n: "n \<in> set ?T" "key n = f"
      using map_find_Some_mem [of ?T f n] by (simp_all add: map_lookup_def)
    let ?n' = "n\<lparr>frequency := frequency n + 1\<rparr>"
    have c1: "ecount (unlink f ?T) = ecount ?T - (if evictable n then 1 else 0)"
      using cnt_unlink [OF d n(1)] n(2) by simp
    have c2: "ecount (set_node f ?n' ?T) = ecount ?T"
      using cnt_set_node [OF d n(1), of ?n'] n(2) by simp
    show ?thesis
    proof (cases "repl_k r \<le> frequency n + 1")
      case True
      have "distinct (map key (unlink f (fifo_list r) @ ?n' # unlink f (lru_list r)))"
        using d n(2) by (intro distinct_keys_move) simp_all
      moreover have "list_all (\<lambda>n. is_int32 (key n)) (unlink f (fifo_list r) @ ?n' # unlink f (lru_list r))"
        using i f n(2) by (simp add: list_all_unlink)
      moreover have "ecount (unlink f (fifo_list r) @ ?n' # unlink f (lru_list r)) = ecount ?T"
        using c1 by (simp add: unlink_append)
      ultimately show ?thesis using ok Some True s
        by (simp add: LRUK_RecordAccess_def replacer_inv_alt Let_def)
    next
      case False
      have "distinct (map key (set_node f ?n' ?T))" using d n(2) by (simp add: keys_set_node)
      moreover have "list_all (\<lambda>n. is_int32 (key n)) (set_node f ?n' ?T)"
        using i f n(2) by (simp add: list_all_set_node)
      ultimately show ?thesis using ok Some False s c2
        by (simp add: LRUK_RecordAccess_def replacer_inv_alt Let_def set_node_append)
    qed
  qed
qed

lemma inv_SetEvictable:
  assumes inv: "replacer_inv r"
  shows "replacer_inv (snd (LRUK_SetEvictable r f b))"
proof (cases "replacer_size r < to_size_t f")
  case True
  then show ?thesis using inv by (simp add: LRUK_SetEvictable_def)
next
  case ok: False
  let ?T = "fifo_list r @ lru_list r"
  from inv have d: "distinct (map key ?T)" and i: "list_all (\<lambda>n. is_int32 (key n)) ?T"
    and s: "(lru_size r + fifo_size r - ecount ?T) mod 2 ^ 64 = 0"
    by (simp_all add: replacer_inv_alt)
  show ?thesis
  proof (cases "map_lookup r f")
    case None
    then show ?thesis using ok inv by (simp add: LRUK_SetEvictable_def)
  next
    case (Some n)
    then have n: "n \<in> set ?T" "key n = f"
      using map_find_Some_mem [of ?T f n] by (simp_all add: map_lookup_def)
    show ?thesis
    proof (cases "b = evictable n")
      case True
      then show ?thesis using ok Some inv by (auto simp: LRUK_SetEvictable_def Let_def)
    next
      case False
      let ?n' = "n\<lparr>evictable := b\<rparr>"
      let ?ch = "if evictable n then - 1 else (1::int)"
      have c: "ecount (set_node f ?n' ?T) = ecount ?T + ?ch"
        using cnt_set_node [OF d n(1), of ?n'] n(2) False by auto
      have d': "distinct (map key (set_node f ?n' ?T))" using d n(2) by (simp add: keys_set_node)
      have fi: "is_int32 f" using i n by (auto simp: list_all_iff)
      have i': "list_all (\<lambda>n. is_int32 (key n)) (set_node f ?n' ?T)"
        using i fi n(2) by (simp add: list_all_set_node)
      have s1: "((lru_size r + ?ch) mod 2 ^ 64 + fifo_size r - (ecount ?T + ?ch)) mod 2 ^ 64 = 0"
        using s by (rule mod_step(1))
      have s2: "(lru_size r + (fifo_size r + ?ch) mod 2 ^ 64 - (ecount ?T + ?ch)) mod 2 ^ 64 = 0"
        using s by (rule mod_step(2))
      have neq: "\<not> ((b \<and> evictable n) \<or> (\<not> b \<and> \<not> evictable n))" using False by auto
      show ?thesis
      proof (cases "2 \<le> frequency n")
        case True
        have "snd (LRUK_SetEvictable r f b) =
              r\<lparr>fifo_list := set_node f ?n' (fifo_list r), lru_list := set_node f ?n' (lru_list r),
                lru_size := (lru_size r + ?ch) mod 2 ^ 64\<rparr>"
          using ok Some neq True by (auto simp: LRUK_SetEvictable_def Let_def)
        then show ?thesis using d' i' s1 c
          by (simp add: replacer_inv_alt set_node_append del: cnt_simps(3))
      next
        case False
        have "snd (LRUK_SetEvictable r f b) =
              r\<lparr>fifo_list := set_node f ?n' (fifo_list r), lru_list := set_node f ?n' (lru_list r),
                fifo_size := (fifo_size r + ?ch) mod 2 ^ 64\<rparr>"
          using ok Some neq False by (auto simp: LRUK_SetEvictable_def Let_def)
        then show ?thesis using d' i' s2 c
          by (simp add: replacer_inv_alt set_node_append del: cnt_simps(3))
      qed
    qed
  qed
qed

lemma inv_unlink_counted:
  assumes inv: "replacer_inv r" and n: "n \<in> set (fifo_list r @ lru_list r)" and e: "evictable n"
  shows "replacer_inv (r\<lparr>lru_size := (lru_size r - 1) mod 2 ^ 64,
                          fifo_list := unlink (key n) (fifo_list r),
                          lru_list := unlink (key n) (lru_list r)\<rparr>)"
    and "replacer_inv (r\<lparr>fifo_size := (fifo_size r - 1) mod 2 ^ 64,
                          fifo_list := unlink (key n) (fifo_list r),
                          lru_list := unlink (key n) (lru_list r)\<rparr>)"
proof -
  let ?T = "fifo_list r @ lru_list r"
  from inv have d: "distinct (map key ?T)" and i: "list_all (\<lambda>n. is_int32 (key n)) ?T"
    and s: "(lru_size r + fifo_size r - ecount ?T) mod 2 ^ 64 = 0"
    by (simp_all add: replacer_inv_alt)
  have c: "ecount (unlink (key n) ?T) = ecount ?T + (- 1)"
    using cnt_unlink [OF d n] e by simp
  have d': "distinct (map key (unlink (key n) ?T))" using d by (rule distinct_keys_unlink)
  have i': "list_all (\<lambda>n. is_int32 (key n)) (unlink (key n) ?T)" using i by (rule list_all_unlink)
  have s1: "((lru_size r + (- 1)) mod 2 ^ 64 + fifo_size r - (ecount ?T + (- 1))) mod 2 ^ 64 = 0"
    using s by (rule mod_step(1))
  have s2: "(lru_size r + (fifo_size r + (- 1)) mod 2 ^ 64 - (ecount ?T + (- 1))) mod 2 ^ 64 = 0"
    using s by (rule mod_step(2))
  show "replacer_inv (r\<lparr>lru_size := (lru_size r - 1) mod 2 ^ 64,
                          fifo_list := unlink (key n) (fifo_list r),
                          lru_list := unlink (key n) (lru_list r)\<rparr>)"
    using d' i' s1 c by (simp add: replacer_inv_alt unlink_append del: cnt_simps(3))
  show "replacer_inv (r\<lparr>fifo_size := (fifo_size r - 1) mod 2 ^ 64,
                          fifo_list := unlink (key n) (fifo_list r),
                          lru_list := unlink (key n) (lru_list r)\<rparr>)"
    using d' i' s2 c by (simp add: replacer_inv_alt unlink_append del: cnt_simps(3))
qed

lemma inv_Evict:
  assumes inv: "replacer_inv r"
  shows "replacer_inv (snd (LRUK_Evict r))"
proof (cases "first_evictable (rev (fifo_list r) @ rev (lru_list r))")
  case None
  then show ?thesis using inv by (simp add: LRUK_Evict_def)
next
  case (Some n)
  then have "n \<in> set (fifo_list r @ lru_list r)" "evictable n"
    using first_evictable_Some [OF Some] by auto
  then show ?thesis using Some inv inv_unlink_counted [of r n]
    by (simp add: LRUK_Evict_def)
qed

lemma inv_Remove:
  assumes inv: "replacer_inv r"
  shows "replacer_inv (LRUK_Remove r f)"
proof (cases "map_lookup r f")
  case None
  then show ?thesis using inv by (simp add: LRUK_Remove_def)
next
  case (Some n)
  then have n: "n \<in> set (fifo_list r @ lru_list r)" "key n = f"
    using map_find_Some_mem [of "fifo_list r @ lru_list r" f n] by (simp_all add: map_lookup_def)
  show ?thesis
  proof (cases "evictable n")
    case True
    then show ?thesis using Some inv n inv_unlink_counted [of r n]
      by (auto simp: LRUK_Remove_def)
  next
    case False
    then show ?thesis using Some inv by (simp add: LRUK_Remove_def)
  qed
qed

lemma inv_step: "replacer_inv r \<Longrightarrow> op_frame_ok x \<Longrightarrow> replacer_inv (replacer_step r x)"
  by (cases x) (simp_all add: inv_RecordAccess inv_SetEvictable inv_Evict inv_Remove)

lemma inv_foldl:
  "replacer_inv r \<Longrightarrow> \<forall>x\<in>set ops. op_frame_ok x \<Longrightarrow> replacer_inv (foldl replacer_step r ops)"
  by (induction ops arbitrary: r) (simp_all add: inv_step)

lemma inv_run: "\<forall>x\<in>set ops. op_frame_ok x \<Longrightarrow> replacer_inv (replacer_run n k ops)"
  unfolding replacer_run_def by (rule inv_foldl [OF inv_new])

lemma int32_keys_bound:
  assumes "distinct (map key ns)" and "list_all (\<lambda>n. is_int32 (key n)) ns"
  shows "int (length ns) \<le> 2 ^ 32"
proof -
  have "set (map key ns) \<subseteq> {- (2 ^ 31) ..< 2 ^ 31}"
    using assms(2) by (auto simp: list_all_iff is_int32_def)
  then have "card (set (map key ns)) \<le> card {- (2 ^ 31) ..< (2 ^ 31 :: int)}"
    by (intro card_mono) simp_all
  moreover have "card (set (map key ns)) = length ns"
    using distinct_card [OF assms(1)] by simp
  ultimately show ?thesis by simp
qed

lemma inv_Size:
  assumes "replacer_inv r"
  shows "LRUK_Size r = int (num_evictable r)"
proof -
  from assms have d: "distinct (map key (tracked r))"
    and i: "list_all (\<lambda>n. is_int32 (key n)) (tracked r)"
    and s: "(lru_size r + fifo_size r - int (num_evictable r)) mod 2 ^ 64 = 0"
    by (simp_all add: replacer_inv_def)
  have "num_evictable r \<le> length (tracked r)" by (simp add: num_evictable_def)
  then have b: "int (num_evictable r) < 2 ^ 64"
    using int32_keys_bound [OF d i] by simp
  have "(lru_size r + fifo_size r) mod 2 ^ 64 = int (num_evictable r) mod 2 ^ 64"
    using s by (simp add: mod_eq_dvd_iff mod_eq_0_iff_dvd)
  also have "\<dots> = int (num_evictable r)" using b by simp
  finally show ?thesis by (simp add: LRUK_Size_def)
qed

text \<open>
  The later text keeps the size right. After every sequence of \<open>RecordAccess\<close>,
  \<open>SetEvictable\<close>, \<open>Evict\<close> and \<open>Remove\<close> on a new replacer, with 32-bit frame ids and any \<open>k\<close>,
  \<open>Size()\<close> is the number of nodes in the list whose evictable flag is set. An operation that
  throws leaves the replacer as it was, so the sequence may hold frame ids the range check
  refuses.
\<close>

theorem size_counts_evictable:
  assumes "\<forall>x\<in>set ops. op_frame_ok x"
  shows "LRUK_Size (replacer_run num_frames k ops) = int (num_evictable (replacer_run num_frames k ops))"
  using inv_Size [OF inv_run [OF assms]] .

theorem size_counts_evictable_witness:
  "LRUK_Size (replacer_run 3 2 [OpRecordAccess 1, OpRecordAccess 2, OpSetEvictable 1 True,
       OpRecordAccess 1, OpSetEvictable 2 True, OpSetEvictable 1 False, OpEvict, OpRemove 1]) = 0
   \<and> LRUK_Size (replacer_run 3 3 [OpRecordAccess 1, OpRecordAccess 1, OpSetEvictable 1 True,
       OpRecordAccess 2, OpSetEvictable 2 True]) = 2"
proof -
  have "LRUK_Size (replacer_run 3 2 [OpRecordAccess 1, OpRecordAccess 2, OpSetEvictable 1 True,
       OpRecordAccess 1, OpSetEvictable 2 True, OpSetEvictable 1 False, OpEvict, OpRemove 1]) =
     int (num_evictable (replacer_run 3 2 [OpRecordAccess 1, OpRecordAccess 2, OpSetEvictable 1 True,
       OpRecordAccess 1, OpSetEvictable 2 True, OpSetEvictable 1 False, OpEvict, OpRemove 1]))"
    by (rule size_counts_evictable) (simp add: is_int32_def)
  moreover have "LRUK_Size (replacer_run 3 3 [OpRecordAccess 1, OpRecordAccess 1, OpSetEvictable 1 True,
       OpRecordAccess 2, OpSetEvictable 2 True]) =
     int (num_evictable (replacer_run 3 3 [OpRecordAccess 1, OpRecordAccess 1, OpSetEvictable 1 True,
       OpRecordAccess 2, OpSetEvictable 2 True]))"
    by (rule size_counts_evictable) (simp add: is_int32_def)
  ultimately show ?thesis
    by (simp add: replacer_run_def LRUKReplacer_new_def LRUK_RecordAccess_def
        LRUK_SetEvictable_def LRUK_Evict_def LRUK_Remove_def LRUK_Size_def map_lookup_def
        to_size_t_def unlink_def set_node_def LinkedNode_new_def num_evictable_def tracked_def Let_def)
qed

text \<open>
  Claim C4, at the input on which the earlier text breaks it. On a new replacer of 3 frames
  with \<open>k = 2\<close>, after \<open>RecordAccess(1)\<close>, \<open>SetEvictable(1, true)\<close> and \<open>SetEvictable(1, true)\<close>
  again, one frame is tracked and its evictable flag is set, and \<open>Size()\<close> of the earlier text
  returns 2: its \<open>SetEvictable\<close> adds one to a counter at every call. The later text returns 1
  on the same input.
\<close>

theorem draft_size_overcounts:
  "ebind (Draft_run 10 3 2 [OpRecordAccess 1, OpSetEvictable 1 True, OpSetEvictable 1 True])
     (\<lambda>d. ebind (Draft_Size d) (\<lambda>r. Inr (fst r, draft_num_evictable d, map fst (node_map d))))
     = Inr (2, 1, [1]) \<and>
   LRUK_Size (replacer_run 3 2 [OpRecordAccess 1, OpSetEvictable 1 True, OpSetEvictable 1 True]) = 1"
  by (simp add: draft_eval replacer_run_def LRUKReplacer_new_def LRUK_RecordAccess_def
      LRUK_SetEvictable_def LRUK_Size_def map_lookup_def to_size_t_def set_node_def
      LinkedNode_new_def)

subsection \<open>The victim\<close>

lemma first_evictable_append:
  "first_evictable (xs @ ys) =
     (case first_evictable xs of Some n \<Rightarrow> Some n | None \<Rightarrow> first_evictable ys)"
  by (induction xs) auto

lemma first_evictable_rev_oldest:
  assumes "sorted_wrt (\<lambda>a b. g b < g a) (map key xs)" and "first_evictable (rev xs) = Some n"
  shows "\<forall>u\<in>set xs. evictable u \<longrightarrow> (g (key n) :: nat) \<le> g (key u)"
  using assms
proof (induction xs)
  case Nil
  then show ?case by simp
next
  case (Cons x xs)
  show ?case
  proof (cases "first_evictable (rev xs)")
    case None
    then have "\<forall>u\<in>set xs. \<not> evictable u" by (simp add: first_evictable_None)
    moreover have "n = x" using Cons.prems(2) None
      by (simp add: first_evictable_append split: if_splits)
    ultimately show ?thesis by auto
  next
    case (Some m)
    then have nm: "m = n" using Cons.prems(2) by (simp add: first_evictable_append)
    have "n \<in> set xs" using first_evictable_Some [OF Some] nm by simp
    then have "g (key n) < g (key x)" using Cons.prems(1) by auto
    moreover have "\<forall>u\<in>set xs. evictable u \<longrightarrow> g (key n) \<le> g (key u)"
      using Cons.IH Cons.prems(1) Some nm by simp
    ultimately show ?thesis by auto
  qed
qed

lemma evict_oldest:
  assumes inv: "replacer_inv r" and hi: "history_inv r h"
  shows "case fst (LRUK_Evict r) of
           None \<Rightarrow> num_evictable r = 0
         | Some f \<Rightarrow> oldest_victim (max (repl_k r) 2) r h f"
proof (cases "num_evictable r = 0")
  case True
  then have "LRUK_Size r = 0" using inv_Size [OF inv] by simp
  then show ?thesis using True by (simp add: LRUK_Evict_def)
next
  case pos: False
  then have sz: "LRUK_Size r \<noteq> 0" using inv_Size [OF inv] by simp
  let ?K = "max (repl_k r) 2"
  from hi have sf: "sorted_wrt (\<lambda>a b. first_access h b < first_access h a) (map key (fifo_list r))"
    and sl: "sorted_wrt (\<lambda>a b. last_access h b < last_access h a) (map key (lru_list r))"
    and ff: "\<forall>n\<in>set (fifo_list r). frequency n < ?K"
    and fl: "\<forall>n\<in>set (lru_list r). ?K \<le> frequency n"
    by (simp_all add: history_inv_def)
  have F: "filter (\<lambda>n. evictable n \<and> frequency n < ?K) (tracked r) = filter evictable (fifo_list r)"
  proof -
    have "filter (\<lambda>n. evictable n \<and> frequency n < ?K) (fifo_list r) = filter evictable (fifo_list r)"
      using ff by (intro filter_cong) auto
    moreover have "filter (\<lambda>n. evictable n \<and> frequency n < ?K) (lru_list r) = []"
      using fl by (auto simp: filter_empty_conv)
    ultimately show ?thesis by (simp add: tracked_def)
  qed
  have L: "filter (\<lambda>n. evictable n \<and> ?K \<le> frequency n) (tracked r) = filter evictable (lru_list r)"
  proof -
    have "filter (\<lambda>n. evictable n \<and> ?K \<le> frequency n) (lru_list r) = filter evictable (lru_list r)"
      using fl by (intro filter_cong) auto
    moreover have "filter (\<lambda>n. evictable n \<and> ?K \<le> frequency n) (fifo_list r) = []"
      using ff by (auto simp: filter_empty_conv)
    ultimately show ?thesis by (simp add: tracked_def)
  qed
  show ?thesis
  proof (cases "first_evictable (rev (fifo_list r))")
    case (Some n)
    have n: "n \<in> set (fifo_list r)" "evictable n" using first_evictable_Some [OF Some] by auto
    have old: "\<forall>u\<in>set (fifo_list r). evictable u \<longrightarrow> first_access h (key n) \<le> first_access h (key u)"
      using first_evictable_rev_oldest [OF sf Some] .
    have "fst (LRUK_Evict r) = Some (key n)"
      using sz Some by (simp add: LRUK_Evict_def first_evictable_append)
    moreover have "oldest_victim ?K r h (key n)"
      unfolding oldest_victim_def Let_def F L using n old by (auto simp: filter_empty_conv)
    ultimately show ?thesis by simp
  next
    case None
    then have nof: "\<forall>u\<in>set (fifo_list r). \<not> evictable u" by (simp add: first_evictable_None)
    show ?thesis
    proof (cases "first_evictable (rev (lru_list r))")
      case (Some n)
      have n: "n \<in> set (lru_list r)" "evictable n" using first_evictable_Some [OF Some] by auto
      have old: "\<forall>u\<in>set (lru_list r). evictable u \<longrightarrow> last_access h (key n) \<le> last_access h (key u)"
        using first_evictable_rev_oldest [OF sl Some] .
      have "fst (LRUK_Evict r) = Some (key n)"
        using sz None Some by (simp add: LRUK_Evict_def first_evictable_append)
      moreover have "oldest_victim ?K r h (key n)"
        unfolding oldest_victim_def Let_def F L using n old nof by (auto simp: filter_empty_conv)
      ultimately show ?thesis by simp
    next
      case None2: None
      then have "\<forall>u\<in>set (lru_list r). \<not> evictable u" by (simp add: first_evictable_None)
      then have "num_evictable r = 0" using nof by (simp add: num_evictable_def tracked_def)
      then show ?thesis using pos by simp
    qed
  qed
qed

lemma sorted_upd_notin:
  "sorted_wrt (\<lambda>a b. g b < g a) ks \<Longrightarrow> f \<notin> set ks \<Longrightarrow>
   sorted_wrt (\<lambda>a b. (g(f := c)) b < (g(f := c)) a) ks"
  by (erule sorted_wrt_mono_rel [rotated]) auto

lemma sorted_upd_cons:
  fixes g :: "int \<Rightarrow> nat"
  assumes "sorted_wrt (\<lambda>a b. g b < g a) ks" and "f \<notin> set ks" and "\<forall>y\<in>set ks. g y < c"
  shows "sorted_wrt (\<lambda>a b. (g(f := c)) b < (g(f := c)) a) (f # ks)"
  using assms sorted_upd_notin [OF assms(1,2), of c] by auto

lemma set_set_node: "m \<in> set (set_node f n' ns) \<Longrightarrow> m \<in> set ns \<or> (m = n' \<and> f \<in> key ` set ns)"
  by (auto simp: set_node_def split: if_splits)

lemma distinct_keys_side:
  "distinct (map key (xs @ ys)) \<Longrightarrow> n \<in> set (xs @ ys) \<Longrightarrow> key n \<in> key ` set xs \<Longrightarrow> n \<in> set xs"
  "distinct (map key (xs @ ys)) \<Longrightarrow> n \<in> set (xs @ ys) \<Longrightarrow> key n \<in> key ` set ys \<Longrightarrow> n \<in> set ys"
  by auto

lemma hinv_unlink:
  assumes hi: "history_inv r h"
    and "fifo_list r' = unlink f (fifo_list r)" and "lru_list r' = unlink f (lru_list r)"
    and "repl_k r' = repl_k r"
  shows "history_inv r' h"
  using assms unfolding history_inv_def tracked_def
  by (auto simp: keys_unlink set_unlink sorted_wrt_filter)

lemma hinv_Evict:
  assumes hi: "history_inv r h"
  shows "history_inv (snd (LRUK_Evict r)) h"
proof (cases "first_evictable (rev (fifo_list r) @ rev (lru_list r))")
  case None
  then show ?thesis using hi by (simp add: LRUK_Evict_def)
next
  case (Some n)
  show ?thesis
  proof (cases "LRUK_Size r = 0")
    case True
    then show ?thesis using hi by (simp add: LRUK_Evict_def)
  next
    case False
    show ?thesis
      by (rule hinv_unlink [OF hi, of _ "key n"]) (simp_all add: LRUK_Evict_def False Some)
  qed
qed

lemma hinv_Remove:
  assumes hi: "history_inv r h"
  shows "history_inv (LRUK_Remove r f) h"
proof (cases "map_lookup r f")
  case None
  then show ?thesis using hi by (simp add: LRUK_Remove_def)
next
  case (Some n)
  show ?thesis
  proof (cases "evictable n")
    case True
    show ?thesis
      by (rule hinv_unlink [OF hi, of _ f]) (simp_all add: LRUK_Remove_def True Some)
  next
    case False
    then show ?thesis using hi Some by (simp add: LRUK_Remove_def)
  qed
qed

lemma hinv_set_node:
  assumes hi: "history_inv r h" and d: "distinct (map key (fifo_list r @ lru_list r))"
    and n: "n \<in> set (fifo_list r @ lru_list r)" "key n = f"
    and n': "key n' = f" "frequency n' = frequency n"
    and "fifo_list r' = set_node f n' (fifo_list r)" and "lru_list r' = set_node f n' (lru_list r)"
    and "repl_k r' = repl_k r"
  shows "history_inv r' h"
proof -
  have m1: "\<And>m. m \<in> set (set_node f n' (fifo_list r)) \<Longrightarrow> m \<in> set (fifo_list r) \<or> (m = n' \<and> n \<in> set (fifo_list r))"
    using set_set_node [of _ f n' "fifo_list r"] distinct_keys_side(1) [OF d n(1)] n(2) by blast
  have m2: "\<And>m. m \<in> set (set_node f n' (lru_list r)) \<Longrightarrow> m \<in> set (lru_list r) \<or> (m = n' \<and> n \<in> set (lru_list r))"
    using set_set_node [of _ f n' "lru_list r"] distinct_keys_side(2) [OF d n(1)] n(2) by blast
  have k1: "map key (set_node f n' (fifo_list r)) = map key (fifo_list r)"
    using n'(1) by (rule keys_set_node)
  have k2: "map key (set_node f n' (lru_list r)) = map key (lru_list r)"
    using n'(1) by (rule keys_set_node)
  have a: "\<forall>m\<in>set (set_node f n' (fifo_list r) @ set_node f n' (lru_list r)).
             first_access h (key m) < clock h \<and> last_access h (key m) < clock h"
  proof
    fix m assume "m \<in> set (set_node f n' (fifo_list r) @ set_node f n' (lru_list r))"
    then have "key m \<in> key ` set (fifo_list r @ lru_list r)"
    proof -
      have "key m \<in> set (map key (set_node f n' (fifo_list r) @ set_node f n' (lru_list r)))"
        using \<open>m \<in> set (set_node f n' (fifo_list r) @ set_node f n' (lru_list r))\<close>
        by (simp only: set_map) (rule imageI)
      then show ?thesis by (auto simp: k1 k2)
    qed
    then show "first_access h (key m) < clock h \<and> last_access h (key m) < clock h"
      using hi by (auto simp: history_inv_def tracked_def)
  qed
  have b: "sorted_wrt (\<lambda>a b. first_access h b < first_access h a) (map key (fifo_list r'))"
    using hi by (simp add: history_inv_def assms(7) k1)
  have c: "sorted_wrt (\<lambda>a b. last_access h b < last_access h a) (map key (lru_list r'))"
    using hi by (simp add: history_inv_def assms(8) k2)
  have fr: "1 \<le> frequency n' \<and> frequency n' < max (repl_k r) 2" if "n \<in> set (fifo_list r)"
    using hi that n'(2) by (simp add: history_inv_def)
  have lr: "max (repl_k r) 2 \<le> frequency n'" if "n \<in> set (lru_list r)"
    using hi that n'(2) by (simp add: history_inv_def)
  have d1: "\<forall>m\<in>set (fifo_list r'). 1 \<le> frequency m \<and> frequency m < max (repl_k r') 2"
  proof
    fix m assume "m \<in> set (fifo_list r')"
    then have "m \<in> set (fifo_list r) \<or> (m = n' \<and> n \<in> set (fifo_list r))"
      using m1 by (simp add: assms(7))
    then show "1 \<le> frequency m \<and> frequency m < max (repl_k r') 2"
      using hi fr by (auto simp: history_inv_def assms(9))
  qed
  have e1: "\<forall>m\<in>set (lru_list r'). max (repl_k r') 2 \<le> frequency m"
  proof
    fix m assume "m \<in> set (lru_list r')"
    then have "m \<in> set (lru_list r) \<or> (m = n' \<and> n \<in> set (lru_list r))"
      using m2 by (simp add: assms(8))
    then show "max (repl_k r') 2 \<le> frequency m"
      using hi lr by (auto simp: history_inv_def assms(9))
  qed
  show ?thesis
    unfolding history_inv_def using a b c d1 e1 by (simp add: tracked_def assms(7,8))
qed

lemma hinv_SetEvictable:
  assumes inv: "replacer_inv r" and hi: "history_inv r h"
  shows "history_inv (snd (LRUK_SetEvictable r f b)) h"
proof (cases "replacer_size r < to_size_t f")
  case True
  then show ?thesis using hi by (simp add: LRUK_SetEvictable_def)
next
  case ok: False
  from inv have d: "distinct (map key (fifo_list r @ lru_list r))" by (simp add: replacer_inv_alt)
  show ?thesis
  proof (cases "map_lookup r f")
    case None
    then show ?thesis using ok hi by (simp add: LRUK_SetEvictable_def)
  next
    case (Some n)
    then have n: "n \<in> set (fifo_list r @ lru_list r)" "key n = f"
      using map_find_Some_mem [of "fifo_list r @ lru_list r" f n] by (simp_all add: map_lookup_def)
    show ?thesis
    proof (cases "b = evictable n")
      case True
      then show ?thesis using ok Some hi by (auto simp: LRUK_SetEvictable_def Let_def)
    next
      case False
      then have neq: "\<not> ((b \<and> evictable n) \<or> (\<not> b \<and> \<not> evictable n))" by auto
      show ?thesis
        by (rule hinv_set_node [OF hi d n, of "n\<lparr>evictable := b\<rparr>"])
           (use ok Some neq n in \<open>auto simp: LRUK_SetEvictable_def Let_def\<close>)
    qed
  qed
qed

lemma hinv_RecordAccess:
  assumes inv: "replacer_inv r" and hi: "history_inv r h"
  shows "history_inv (snd (LRUK_RecordAccess r f)) (history_record r h f)"
proof (cases "replacer_size r < to_size_t f")
  case True
  then show ?thesis using hi by (simp add: LRUK_RecordAccess_def history_record_def)
next
  case ok: False
  let ?c = "clock h"
  let ?K = "max (repl_k r) 2"
  from inv have d: "distinct (map key (fifo_list r @ lru_list r))" by (simp add: replacer_inv_alt)
  from hi have a: "\<forall>n\<in>set (fifo_list r @ lru_list r). first_access h (key n) < ?c \<and> last_access h (key n) < ?c"
    and sf: "sorted_wrt (\<lambda>a b. first_access h b < first_access h a) (map key (fifo_list r))"
    and sl: "sorted_wrt (\<lambda>a b. last_access h b < last_access h a) (map key (lru_list r))"
    and ff: "\<forall>n\<in>set (fifo_list r). 1 \<le> frequency n \<and> frequency n < ?K"
    and fl: "\<forall>n\<in>set (lru_list r). ?K \<le> frequency n"
    by (simp_all add: history_inv_def tracked_def)
  have noerr: "fst (LRUK_RecordAccess r f) = None"
    using ok by (intro RecordAccess_no_error) simp
  show ?thesis
  proof (cases "map_lookup r f")
    case None
    then have nf: "f \<notin> key ` set (fifo_list r @ lru_list r)"
      by (simp add: map_lookup_def map_find_None_iff)
    define h' where "h' = h\<lparr>clock := ?c + 1, first_access := (first_access h)(f := ?c),
                             last_access := (last_access h)(f := ?c)\<rparr>"
    have hr: "history_record r h f = h'" using noerr None by (simp add: history_record_def h'_def)
    define r' where "r' = snd (LRUK_RecordAccess r f)"
    have r': "fifo_list r' = LinkedNode_new f # fifo_list r" "lru_list r' = lru_list r" "repl_k r' = repl_k r"
      using ok None by (simp_all add: r'_def LRUK_RecordAccess_def)
    have a': "\<forall>n\<in>set (tracked r'). first_access h' (key n) < clock h' \<and> last_access h' (key n) < clock h'"
      using a by (auto simp: tracked_def r' h'_def LinkedNode_new_def less_Suc_eq)
    have b': "sorted_wrt (\<lambda>a b. first_access h' b < first_access h' a) (map key (fifo_list r'))"
    proof -
      have "sorted_wrt (\<lambda>a b. ((first_access h)(f := ?c)) b < ((first_access h)(f := ?c)) a) (f # map key (fifo_list r))"
        using sf nf a by (intro sorted_upd_cons) auto
      then show ?thesis by (simp add: r' h'_def LinkedNode_new_def)
    qed
    have c': "sorted_wrt (\<lambda>a b. last_access h' b < last_access h' a) (map key (lru_list r'))"
    proof -
      have "sorted_wrt (\<lambda>a b. ((last_access h)(f := ?c)) b < ((last_access h)(f := ?c)) a) (map key (lru_list r))"
        using sl nf by (intro sorted_upd_notin) auto
      then show ?thesis by (simp add: r' h'_def)
    qed
    have d': "\<forall>n\<in>set (fifo_list r'). 1 \<le> frequency n \<and> frequency n < max (repl_k r') 2"
      using ff by (auto simp: r' LinkedNode_new_def)
    have e': "\<forall>n\<in>set (lru_list r'). max (repl_k r') 2 \<le> frequency n"
      using fl by (simp add: r')
    have "history_inv r' h'" unfolding history_inv_def using a' b' c' d' e' by simp
    then show ?thesis by (simp add: hr r'_def)
  next
    case (Some n)
    then have n: "n \<in> set (fifo_list r @ lru_list r)" "key n = f"
      using map_find_Some_mem [of "fifo_list r @ lru_list r" f n] by (simp_all add: map_lookup_def)
    have n1: "1 \<le> frequency n" using n(1) ff fl by auto
    define h' where "h' = h\<lparr>clock := ?c + 1, first_access := first_access h,
                             last_access := (last_access h)(f := ?c)\<rparr>"
    have hr: "history_record r h f = h'" using noerr Some by (simp add: history_record_def h'_def)
    define n' where "n' = n\<lparr>frequency := frequency n + 1\<rparr>"
    define r' where "r' = snd (LRUK_RecordAccess r f)"
    have kn': "key n' = f" using n(2) by (simp add: n'_def)
    show ?thesis
    proof (cases "repl_k r \<le> frequency n + 1")
      case True
      have r': "fifo_list r' = unlink f (fifo_list r)" "lru_list r' = n' # unlink f (lru_list r)"
        "repl_k r' = repl_k r"
        using ok Some True by (simp_all add: r'_def n'_def LRUK_RecordAccess_def Let_def)
      have a': "\<forall>m\<in>set (tracked r'). first_access h' (key m) < clock h' \<and> last_access h' (key m) < clock h'"
        using a n kn' by (auto simp: tracked_def r' h'_def set_unlink less_Suc_eq)
      have b': "sorted_wrt (\<lambda>a b. first_access h' b < first_access h' a) (map key (fifo_list r'))"
        using sf by (simp add: r' h'_def keys_unlink sorted_wrt_filter)
      have c': "sorted_wrt (\<lambda>a b. last_access h' b < last_access h' a) (map key (lru_list r'))"
      proof -
        have "sorted_wrt (\<lambda>a b. ((last_access h)(f := ?c)) b < ((last_access h)(f := ?c)) a)
                (f # filter (\<lambda>g. g \<noteq> f) (map key (lru_list r)))"
          using sl a by (intro sorted_upd_cons) (auto simp: sorted_wrt_filter)
        then show ?thesis by (simp add: r' h'_def keys_unlink kn')
      qed
      have d': "\<forall>m\<in>set (fifo_list r'). 1 \<le> frequency m \<and> frequency m < max (repl_k r') 2"
        using ff by (auto simp: r' set_unlink)
      have e': "\<forall>m\<in>set (lru_list r'). max (repl_k r') 2 \<le> frequency m"
        using fl True n1 by (auto simp: r' set_unlink n'_def)
      have "history_inv r' h'" unfolding history_inv_def using a' b' c' d' e' by simp
      then show ?thesis by (simp add: hr r'_def)
    next
      case False
      have r': "fifo_list r' = set_node f n' (fifo_list r)" "lru_list r' = set_node f n' (lru_list r)"
        "repl_k r' = repl_k r"
        using ok Some False by (simp_all add: r'_def n'_def LRUK_RecordAccess_def Let_def)
      have "n \<notin> set (lru_list r)" using fl False by auto
      then have nfifo: "n \<in> set (fifo_list r)" using n(1) by simp
      then have "f \<notin> key ` set (lru_list r)" using d n(2) by auto
      then have lru_same: "set_node f n' (lru_list r) = lru_list r"
        and nl: "f \<notin> set (map key (lru_list r))" by (simp_all add: set_node_notin)
      have k1: "map key (set_node f n' (fifo_list r)) = map key (fifo_list r)"
        using kn' by (rule keys_set_node)
      have a': "\<forall>m\<in>set (tracked r'). first_access h' (key m) < clock h' \<and> last_access h' (key m) < clock h'"
      proof
        fix m assume "m \<in> set (tracked r')"
        then have "m \<in> set (fifo_list r @ lru_list r) \<or> m = n'"
          using set_set_node [of m f n' "fifo_list r"] by (auto simp: tracked_def r' lru_same)
        then show "first_access h' (key m) < clock h' \<and> last_access h' (key m) < clock h'"
          using a n kn' by (auto simp: h'_def less_Suc_eq)
      qed
      have b': "sorted_wrt (\<lambda>a b. first_access h' b < first_access h' a) (map key (fifo_list r'))"
        using sf by (simp add: r' h'_def k1)
      have c': "sorted_wrt (\<lambda>a b. last_access h' b < last_access h' a) (map key (lru_list r'))"
      proof -
        have "sorted_wrt (\<lambda>a b. ((last_access h)(f := ?c)) b < ((last_access h)(f := ?c)) a) (map key (lru_list r))"
          using sl nl by (rule sorted_upd_notin)
        then show ?thesis by (simp add: r' h'_def lru_same)
      qed
      have d': "\<forall>m\<in>set (fifo_list r'). 1 \<le> frequency m \<and> frequency m < max (repl_k r') 2"
      proof
        fix m assume "m \<in> set (fifo_list r')"
        then have "m \<in> set (fifo_list r) \<or> m = n'"
          using set_set_node [of m f n' "fifo_list r"] by (auto simp: r')
        then show "1 \<le> frequency m \<and> frequency m < max (repl_k r') 2"
          using ff False by (auto simp: n'_def r')
      qed
      have e': "\<forall>m\<in>set (lru_list r'). max (repl_k r') 2 \<le> frequency m"
        using fl by (simp add: r' lru_same)
      have "history_inv r' h'" unfolding history_inv_def using a' b' c' d' e' by simp
      then show ?thesis by (simp add: hr r'_def)
    qed
  qed
qed

lemma both_step:
  assumes "replacer_inv r" and "history_inv r h" and "op_frame_ok x"
  shows "replacer_inv (fst (history_step (r, h) x)) \<and>
         history_inv (fst (history_step (r, h) x)) (snd (history_step (r, h) x))"
  using assms
  by (cases x)
     (simp_all add: inv_RecordAccess inv_SetEvictable inv_Evict inv_Remove
        hinv_RecordAccess hinv_SetEvictable hinv_Evict hinv_Remove)

lemma both_foldl:
  assumes "replacer_inv (fst s)" and "history_inv (fst s) (snd s)" and "\<forall>x\<in>set ops. op_frame_ok x"
  shows "replacer_inv (fst (foldl history_step s ops)) \<and>
         history_inv (fst (foldl history_step s ops)) (snd (foldl history_step s ops))"
  using assms
proof (induction ops arbitrary: s)
  case Nil
  then show ?case by simp
next
  case (Cons x ops)
  obtain r h where s: "s = (r, h)" by (cases s)
  have "replacer_inv (fst (history_step s x)) \<and> history_inv (fst (history_step s x)) (snd (history_step s x))"
    using both_step [of r h x] Cons.prems s by simp
  then show ?case using Cons.IH [of "history_step s x"] Cons.prems(3) by simp
qed

lemma hinv_new: "history_inv (LRUKReplacer_new n k) history_new"
  by (simp add: history_inv_def LRUKReplacer_new_def history_new_def tracked_def)

lemma both_run:
  assumes "\<forall>x\<in>set ops. op_frame_ok x"
  shows "replacer_inv (fst (history_run n k ops)) \<and>
         history_inv (fst (history_run n k ops)) (snd (history_run n k ops))"
  unfolding history_run_def
  by (rule both_foldl) (simp_all add: inv_new hinv_new assms)

lemma repl_k_step: "repl_k (fst (history_step s x)) = repl_k (fst s)"
  by (cases s; cases x)
     (auto simp: LRUK_RecordAccess_def LRUK_SetEvictable_def LRUK_Evict_def LRUK_Remove_def Let_def
        split: option.splits)

lemma repl_k_foldl: "repl_k (fst (foldl history_step s ops)) = repl_k (fst s)"
  by (induction ops arbitrary: s) (simp_all add: repl_k_step)

lemma repl_k_run: "repl_k (fst (history_run n k ops)) = k"
  by (simp add: history_run_def repl_k_foldl LRUKReplacer_new_def)

lemma fst_history_step: "fst (history_step s x) = replacer_step (fst s) x"
  by (cases s; cases x) simp_all

lemma fst_history_foldl: "fst (foldl history_step s ops) = foldl replacer_step (fst s) ops"
  by (induction ops arbitrary: s) (simp_all add: fst_history_step)

lemma fst_history_run: "fst (history_run n k ops) = replacer_run n k ops"
  by (simp add: history_run_def replacer_run_def fst_history_foldl)

lemmas replacer_eval =
  replacer_run_def history_run_def history_new_def history_record_def
  LRUKReplacer_new_def LRUK_RecordAccess_def
  LRUK_SetEvictable_def LRUK_Evict_def LRUK_Remove_def LRUK_Size_def map_lookup_def
  to_size_t_def unlink_def set_node_def LinkedNode_new_def num_evictable_def tracked_def Let_def
  oldest_victim_def

text \<open>
  Claim C3, as amended, of the later text. The history of a run records, beside the
  replacer, the time of each tracked frame's first access since it was admitted and of its
  latest access. After every
  sequence of operations with 32-bit frame ids, \<open>Evict\<close> returns none when no tracked frame is
  evictable, and otherwise the frame \<open>oldest_victim\<close> describes, with the threshold
  \<open>max k 2\<close>: the evictable frame of access count below the threshold with the earliest first
  access, or, when there is none, the evictable frame of access count at or above the
  threshold with the earliest latest access. For \<open>k \<ge> 2\<close> the threshold is \<open>k\<close>; for \<open>k = 1\<close> a
  frame leaves the FIFO region at its second access. With \<open>k = 2\<close> and 3 frames, after the
  accesses 1, 2, 3, 1, 2 and marking all three frames evictable, \<open>Evict\<close> returns frame 3.
\<close>

theorem evict_oldest_victim:
  assumes "\<forall>x\<in>set ops. op_frame_ok x"
  shows "(case fst (LRUK_Evict (fst (history_run num_frames k ops))) of
            None \<Rightarrow> num_evictable (fst (history_run num_frames k ops)) = 0
          | Some f \<Rightarrow> oldest_victim (max k 2) (fst (history_run num_frames k ops))
                        (snd (history_run num_frames k ops)) f) \<and>
         fst (history_run num_frames k ops) = replacer_run num_frames k ops \<and>
         fst (LRUK_Evict (replacer_run 3 2
                [OpRecordAccess 1, OpRecordAccess 2, OpRecordAccess 3, OpRecordAccess 1,
                 OpRecordAccess 2, OpSetEvictable 1 True, OpSetEvictable 2 True,
                 OpSetEvictable 3 True])) = Some 3"
proof -
  have "replacer_inv (fst (history_run num_frames k ops))"
    and "history_inv (fst (history_run num_frames k ops)) (snd (history_run num_frames k ops))"
    using both_run [OF assms] by simp_all
  then have "case fst (LRUK_Evict (fst (history_run num_frames k ops))) of
            None \<Rightarrow> num_evictable (fst (history_run num_frames k ops)) = 0
          | Some f \<Rightarrow> oldest_victim (max (repl_k (fst (history_run num_frames k ops))) 2)
                        (fst (history_run num_frames k ops)) (snd (history_run num_frames k ops)) f"
    by (rule evict_oldest)
  then have main: "case fst (LRUK_Evict (fst (history_run num_frames k ops))) of
            None \<Rightarrow> num_evictable (fst (history_run num_frames k ops)) = 0
          | Some f \<Rightarrow> oldest_victim (max k 2) (fst (history_run num_frames k ops))
                        (snd (history_run num_frames k ops)) f"
    by (simp only: repl_k_run)
  have "fst (LRUK_Evict (replacer_run 3 2
                [OpRecordAccess 1, OpRecordAccess 2, OpRecordAccess 3, OpRecordAccess 1,
                 OpRecordAccess 2, OpSetEvictable 1 True, OpSetEvictable 2 True,
                 OpSetEvictable 3 True])) = Some 3"
    by (simp add: replacer_eval)
  with main fst_history_run show ?thesis by (intro conjI)
qed

theorem evict_oldest_victim_witness:
  "oldest_victim 2
     (fst (history_run 3 2 [OpRecordAccess 1, OpRecordAccess 2, OpRecordAccess 3, OpRecordAccess 1,
                 OpRecordAccess 2, OpSetEvictable 1 True, OpSetEvictable 2 True,
                 OpSetEvictable 3 True]))
     (snd (history_run 3 2 [OpRecordAccess 1, OpRecordAccess 2, OpRecordAccess 3, OpRecordAccess 1,
                 OpRecordAccess 2, OpSetEvictable 1 True, OpSetEvictable 2 True,
                 OpSetEvictable 3 True])) 3"
proof -
  let ?ops = "[OpRecordAccess 1, OpRecordAccess 2, OpRecordAccess 3, OpRecordAccess 1,
                 OpRecordAccess 2, OpSetEvictable 1 True, OpSetEvictable 2 True,
                 OpSetEvictable 3 True]"
  have ok: "\<forall>x\<in>set ?ops. op_frame_ok x" by (simp add: is_int32_def)
  have ev: "fst (LRUK_Evict (fst (history_run 3 2 ?ops))) = Some 3"
    by (simp add: replacer_eval)
  have "case fst (LRUK_Evict (fst (history_run 3 2 ?ops))) of
            None \<Rightarrow> num_evictable (fst (history_run 3 2 ?ops)) = 0
          | Some f \<Rightarrow> oldest_victim (max 2 2) (fst (history_run 3 2 ?ops))
                        (snd (history_run 3 2 ?ops)) f"
    using evict_oldest_victim [OF ok, of 3 2] by (rule conjunct1)
  then show ?thesis unfolding ev by simp
qed

text \<open>
  With \<open>k = 1\<close>, after the accesses 1, 1, 2 with both frames evictable, every frame has an
  access count of at least \<open>k\<close>, and frame 1 is the one whose latest access is the earliest;
  \<open>Evict\<close> of the later text returns frame 2. In the earlier text, with \<open>k = 2\<close> and 3 frames,
  after the accesses 1, 2, 3, 1, 2 and marking all three frames evictable, three tracked
  frames are evictable and \<open>Evict\<close> does not return frame 3: it does not return.
\<close>

theorem evict_region_counterexample:
  "fst (LRUK_Evict (fst (history_run 3 1
      [OpRecordAccess 1, OpRecordAccess 1, OpRecordAccess 2, OpSetEvictable 1 True,
       OpSetEvictable 2 True]))) = Some 2 \<and>
   \<not> oldest_victim 1
      (fst (history_run 3 1 [OpRecordAccess 1, OpRecordAccess 1, OpRecordAccess 2,
         OpSetEvictable 1 True, OpSetEvictable 2 True]))
      (snd (history_run 3 1 [OpRecordAccess 1, OpRecordAccess 1, OpRecordAccess 2,
         OpSetEvictable 1 True, OpSetEvictable 2 True])) 2 \<and>
   oldest_victim 1
      (fst (history_run 3 1 [OpRecordAccess 1, OpRecordAccess 1, OpRecordAccess 2,
         OpSetEvictable 1 True, OpSetEvictable 2 True]))
      (snd (history_run 3 1 [OpRecordAccess 1, OpRecordAccess 1, OpRecordAccess 2,
         OpSetEvictable 1 True, OpSetEvictable 2 True])) 1 \<and>
   (case Draft_run 10 3 2 [OpRecordAccess 1, OpRecordAccess 2, OpRecordAccess 3, OpRecordAccess 1,
                 OpRecordAccess 2, OpSetEvictable 1 True, OpSetEvictable 2 True,
                 OpSetEvictable 3 True] of
      Inl e \<Rightarrow> False
    | Inr d \<Rightarrow> draft_num_evictable d = 3 \<and> Draft_Evict 10 d False = Inl Blocked)"
  by (simp add: replacer_eval draft_eval)

section \<open>The extendible hash table\<close>

lemmas eht_eval =
  ExtendibleHashTable_new_def Bucket_new_def Bucket_Insert_def Bucket_IsFull_def IndexOf_def
  reassign_dir_def redistribute_def GetGlobalDepth_def GetLocalDepth_def GetNumBuckets_def
  live_buckets_def Let_def EHT_Find_def Bucket_Find_def

lemma EHT_Insert_done:
  "Bucket_Insert (heap t ! (dir t ! IndexOf hash t k)) k v = (True, b) \<Longrightarrow>
   EHT_Insert (Suc fuel) hash t k v = Inr (t\<lparr>heap := (heap t)[dir t ! IndexOf hash t k := b]\<rparr>)"
  by (simp add: Let_def)

lemma EHT_Insert_retry:
  "Bucket_Insert (heap t ! (dir t ! IndexOf hash t k)) k v = (False, b) \<Longrightarrow>
   Bucket_IsFull (heap t ! (dir t ! IndexOf hash t k)) \<Longrightarrow>
   EHT_Insert (Suc fuel) hash t k v = EHT_Insert fuel hash (EHT_split hash t (IndexOf hash t k)) k v"
  by (simp add: Let_def)

lemma four_items_step1:
  "EHT_Insert (Suc n) hash (ExtendibleHashTable_new 2) k0 v0 =
   Inr \<lparr>global_depth = 0, bucket_size = 2, num_buckets = 1, dir = [0],
        heap = [\<lparr>bsize = 2, bdepth = 0, blist = [(k0, v0)]\<rparr>]\<rparr>"
  by (simp add: eht_eval)

lemma four_items_step2:
  "k0 \<noteq> k1 \<Longrightarrow>
   EHT_Insert (Suc n) hash \<lparr>global_depth = 0, bucket_size = 2, num_buckets = 1, dir = [0],
        heap = [\<lparr>bsize = 2, bdepth = 0, blist = [(k0, v0)]\<rparr>]\<rparr> k1 v1 =
   Inr \<lparr>global_depth = 0, bucket_size = 2, num_buckets = 1, dir = [0],
        heap = [\<lparr>bsize = 2, bdepth = 0, blist = [(k0, v0), (k1, v1)]\<rparr>]\<rparr>"
  by (simp add: eht_eval)

lemma four_items_split:
  assumes "hash k0 = 0" and "hash k1 = 1"
  shows "EHT_split hash \<lparr>global_depth = 0, bucket_size = 2, num_buckets = 1, dir = [0],
        heap = [\<lparr>bsize = 2, bdepth = 0, blist = [(k0, v0), (k1, v1)]\<rparr>]\<rparr> 0 =
   \<lparr>global_depth = 1, bucket_size = 2, num_buckets = 2, dir = [1, 2],
        heap = [\<lparr>bsize = 2, bdepth = 0, blist = [(k0, v0), (k1, v1)]\<rparr>,
           \<lparr>bsize = 2, bdepth = 1, blist = [(k0, v0)]\<rparr>,
           \<lparr>bsize = 2, bdepth = 1, blist = [(k1, v1)]\<rparr>]\<rparr>"
proof -
  have ne: "k0 \<noteq> k1" "k1 \<noteq> k0" using assms by auto
  show ?thesis using assms ne by (simp add: EHT_split_def eht_eval numeral_2_eq_2)
qed

lemma four_items_step3:
  assumes "hash k0 = 0" and "hash k1 = 1" and "hash k2 = 2"
  shows "EHT_Insert (Suc (Suc n)) hash \<lparr>global_depth = 0, bucket_size = 2, num_buckets = 1, dir = [0],
        heap = [\<lparr>bsize = 2, bdepth = 0, blist = [(k0, v0), (k1, v1)]\<rparr>]\<rparr> k2 v2 =
   Inr \<lparr>global_depth = 1, bucket_size = 2, num_buckets = 2, dir = [1, 2],
        heap = [\<lparr>bsize = 2, bdepth = 0, blist = [(k0, v0), (k1, v1)]\<rparr>,
           \<lparr>bsize = 2, bdepth = 1, blist = [(k0, v0), (k2, v2)]\<rparr>,
           \<lparr>bsize = 2, bdepth = 1, blist = [(k1, v1)]\<rparr>]\<rparr>"
    (is "EHT_Insert _ _ ?S2 _ _ = Inr ?S3")
proof -
  have ne: "k0 \<noteq> k2" "k1 \<noteq> k2" using assms by auto
  have "EHT_Insert (Suc (Suc n)) hash ?S2 k2 v2 =
        EHT_Insert (Suc n) hash (EHT_split hash ?S2 (IndexOf hash ?S2 k2)) k2 v2"
    by (rule EHT_Insert_retry [where b = "heap ?S2 ! 0"]) (use ne in \<open>simp_all add: eht_eval\<close>)
  also have "IndexOf hash ?S2 k2 = 0" by (simp add: IndexOf_def)
  also have "EHT_split hash ?S2 0 = \<lparr>global_depth = 1, bucket_size = 2, num_buckets = 2, dir = [1, 2],
        heap = [\<lparr>bsize = 2, bdepth = 0, blist = [(k0, v0), (k1, v1)]\<rparr>,
           \<lparr>bsize = 2, bdepth = 1, blist = [(k0, v0)]\<rparr>,
           \<lparr>bsize = 2, bdepth = 1, blist = [(k1, v1)]\<rparr>]\<rparr>"
    using assms(1,2) by (rule four_items_split)
  also have "EHT_Insert (Suc n) hash \<dots> k2 v2 = Inr ?S3"
    using assms(3) ne by (simp add: eht_eval)
  finally show ?thesis .
qed

lemma four_items_step4:
  assumes "hash k0 = 0" and "hash k1 = 1" and "hash k2 = 2" and "hash k3 = 3"
  shows "EHT_Insert (Suc n) hash \<lparr>global_depth = 1, bucket_size = 2, num_buckets = 2, dir = [1, 2],
        heap = [\<lparr>bsize = 2, bdepth = 0, blist = [(k0, v0), (k1, v1)]\<rparr>,
           \<lparr>bsize = 2, bdepth = 1, blist = [(k0, v0), (k2, v2)]\<rparr>,
           \<lparr>bsize = 2, bdepth = 1, blist = [(k1, v1)]\<rparr>]\<rparr> k3 v3 =
   Inr \<lparr>global_depth = 1, bucket_size = 2, num_buckets = 2, dir = [1, 2],
        heap = [\<lparr>bsize = 2, bdepth = 0, blist = [(k0, v0), (k1, v1)]\<rparr>,
           \<lparr>bsize = 2, bdepth = 1, blist = [(k0, v0), (k2, v2)]\<rparr>,
           \<lparr>bsize = 2, bdepth = 1, blist = [(k1, v1), (k3, v3)]\<rparr>]\<rparr>"
proof -
  have ne: "k1 \<noteq> k3" using assms by auto
  have m: "(3::nat) mod 2 = 1" by simp
  show ?thesis using assms(4) ne m by (simp add: eht_eval)
qed

text \<open>
  Claim C2, as amended. From global depth 0 and bucket capacity 2, inserting four items whose
  hash values are 0, 1, 2 and 3, in this order, returns (fuel 2 is enough for every insert)
  and ends with global depth 1 and two live buckets, each of local depth 1: the third insert
  finds the only bucket full, doubles the directory and splits the bucket by the lowest bit,
  and each half has room for two items. All four items are found afterwards.
\<close>

theorem four_items_depth_one:
  assumes "hash k0 = 0" and "hash k1 = 1" and "hash k2 = 2" and "hash k3 = 3"
  shows "\<exists>t. EHT_Insert_all (Suc (Suc n)) hash (ExtendibleHashTable_new 2)
               [(k0, v0), (k1, v1), (k2, v2), (k3, v3)] = Inr t \<and>
             GetGlobalDepth t = 1 \<and> GetNumBuckets t = 2 \<and> live_buckets t = 2 \<and>
             length (dir t) = 2 \<and> GetLocalDepth t 0 = 1 \<and> GetLocalDepth t 1 = 1 \<and>
             EHT_Find hash t k0 = Some v0 \<and> EHT_Find hash t k1 = Some v1 \<and>
             EHT_Find hash t k2 = Some v2 \<and> EHT_Find hash t k3 = Some v3"
proof -
  have ne: "k0 \<noteq> k1" "k0 \<noteq> k2" "k1 \<noteq> k3" "k2 \<noteq> k0" "k3 \<noteq> k1"
    using assms by auto
  have m: "(3::nat) mod 2 = 1" by simp
  have "EHT_Insert_all (Suc (Suc n)) hash (ExtendibleHashTable_new 2)
               [(k0, v0), (k1, v1), (k2, v2), (k3, v3)] =
        Inr \<lparr>global_depth = 1, bucket_size = 2, num_buckets = 2, dir = [1, 2],
        heap = [\<lparr>bsize = 2, bdepth = 0, blist = [(k0, v0), (k1, v1)]\<rparr>,
           \<lparr>bsize = 2, bdepth = 1, blist = [(k0, v0), (k2, v2)]\<rparr>,
           \<lparr>bsize = 2, bdepth = 1, blist = [(k1, v1), (k3, v3)]\<rparr>]\<rparr>"
    by (simp only: EHT_Insert_all.simps four_items_step1 four_items_step2 [OF ne(1)]
        four_items_step3 [of hash k0 k1 k2, OF assms(1,2,3)]
        four_items_step4 [of hash k0 k1 k2 k3, OF assms] sum.case)
  moreover have "GetGlobalDepth \<lparr>global_depth = 1, bucket_size = 2, num_buckets = 2, dir = [1, 2],
        heap = [\<lparr>bsize = 2, bdepth = 0, blist = [(k0, v0), (k1, v1)]\<rparr>,
           \<lparr>bsize = 2, bdepth = 1, blist = [(k0, v0), (k2, v2)]\<rparr>,
           \<lparr>bsize = 2, bdepth = 1, blist = [(k1, v1), (k3, v3)]\<rparr>]\<rparr> = 1" (is "GetGlobalDepth ?T = 1")
    by (simp add: eht_eval)
  moreover have "GetNumBuckets ?T = 2 \<and> live_buckets ?T = 2 \<and> length (dir ?T) = 2 \<and>
                 GetLocalDepth ?T 0 = 1 \<and> GetLocalDepth ?T 1 = 1"
    by (simp add: eht_eval)
  moreover have "EHT_Find hash ?T k0 = Some v0 \<and> EHT_Find hash ?T k1 = Some v1 \<and>
             EHT_Find hash ?T k2 = Some v2 \<and> EHT_Find hash ?T k3 = Some v3"
    using assms ne m by (simp add: eht_eval)
  ultimately show ?thesis by blast
qed

theorem four_items_depth_one_witness:
  "\<exists>t. EHT_Insert_all 2 nat (ExtendibleHashTable_new 2)
               [(0::int, 10::int), (1, 11), (2, 12), (3, 13)] = Inr t \<and>
       GetGlobalDepth t = 1 \<and> GetNumBuckets t = 2 \<and> live_buckets t = 2 \<and>
       GetLocalDepth t 0 = 1 \<and> GetLocalDepth t 1 = 1"
proof -
  have "\<exists>t. EHT_Insert_all (Suc (Suc 0)) nat (ExtendibleHashTable_new 2)
               [(0::int, 10::int), (1, 11), (2, 12), (3, 13)] = Inr t \<and>
             GetGlobalDepth t = 1 \<and> GetNumBuckets t = 2 \<and> live_buckets t = 2 \<and>
             length (dir t) = 2 \<and> GetLocalDepth t 0 = 1 \<and> GetLocalDepth t 1 = 1 \<and>
             EHT_Find nat t 0 = Some 10 \<and> EHT_Find nat t 1 = Some 11 \<and>
             EHT_Find nat t 2 = Some 12 \<and> EHT_Find nat t 3 = Some 13"
    by (rule four_items_depth_one) simp_all
  then show ?thesis by (simp only: numeral_2_eq_2) blast
qed

text \<open>
  With the keys 0, 1, 2, 3 and the identity as hash function, the end state has neither
  global depth 2 nor four buckets.
\<close>

theorem four_items_counterexample:
  "(case EHT_Insert_all 2 nat (ExtendibleHashTable_new 2)
           [(0::int, 10::int), (1, 11), (2, 12), (3, 13)] of
      Inl e \<Rightarrow> False
    | Inr t \<Rightarrow> GetGlobalDepth t \<noteq> 2 \<and> GetNumBuckets t \<noteq> 4 \<and> live_buckets t \<noteq> 4 \<and>
               GetLocalDepth t 0 \<noteq> 2)"
  by code_simp

section \<open>The buffer pool manager\<close>

lemma map_find_set_node:
  "key n' = f \<Longrightarrow> map_find (set_node f n' ns) f = (case map_find ns f of None \<Rightarrow> None | Some n \<Rightarrow> Some n')"
  by (induction ns) (auto simp: set_node_def)

lemma lookup_SetEvictable:
  assumes "map_lookup r f = Some n" and "to_size_t f \<le> replacer_size r"
  shows "map_lookup (snd (LRUK_SetEvictable r f b)) f = Some (n\<lparr>evictable := b\<rparr>)"
proof -
  have k: "key n = f" using assms(1) map_find_Some_mem [of "fifo_list r @ lru_list r" f n]
    by (simp add: map_lookup_def)
  show ?thesis
  proof (cases "b = evictable n")
    case True
    then show ?thesis using assms by (auto simp: LRUK_SetEvictable_def Let_def)
  next
    case False
    then have neq: "\<not> ((b \<and> evictable n) \<or> (\<not> b \<and> \<not> evictable n))" by auto
    have "map_find (set_node f (n\<lparr>evictable := b\<rparr>) (fifo_list r @ lru_list r)) f = Some (n\<lparr>evictable := b\<rparr>)"
      using assms(1) k by (simp add: map_find_set_node map_lookup_def)
    then show ?thesis using assms neq
      by (auto simp: LRUK_SetEvictable_def Let_def map_lookup_def set_node_append)
  qed
qed

lemma UnpinPgImp_effect:
  "(PT_Find (page_table s) pid = None \<longrightarrow> BPM_UnpinPgImp s pid dirty = Inr (False, s)) \<and>
   (\<forall>f. PT_Find (page_table s) pid = Some f \<and> pin_count (page_at s f) \<le> 0 \<longrightarrow>
        BPM_UnpinPgImp s pid dirty = Inr (False, s)) \<and>
   (\<forall>f. PT_Find (page_table s) pid = Some f \<and> 0 < pin_count (page_at s f) \<and>
        nat f < length (pages s) \<and> to_size_t f \<le> replacer_size (replacer s) \<longrightarrow>
        (\<exists>s'. BPM_UnpinPgImp s pid dirty = Inr (True, s') \<and>
              page_at s' f = (page_at s f)\<lparr>pin_count := pin_count (page_at s f) - 1,
                                            is_dirty := is_dirty (page_at s f) \<or> dirty\<rparr> \<and>
              (\<forall>g. g \<noteq> nat f \<longrightarrow> pages s' ! g = pages s ! g) \<and>
              length (pages s') = length (pages s) \<and>
              replacer s' = (if pin_count (page_at s f) = 1
                             then snd (LRUK_SetEvictable (replacer s) f True) else replacer s) \<and>
              (\<forall>n. pin_count (page_at s f) = 1 \<and> map_lookup (replacer s) f = Some n \<longrightarrow>
                   map_lookup (replacer s') f = Some (n\<lparr>evictable := True\<rparr>)) \<and>
              page_table s' = page_table s \<and> free_list s' = free_list s \<and> disk s' = disk s \<and>
              next_alloc_page_id s' = next_alloc_page_id s \<and> pool_size s' = pool_size s))"
proof (intro conjI allI impI)
  show "BPM_UnpinPgImp s pid dirty = Inr (False, s)" if "PT_Find (page_table s) pid = None"
    using that by (simp add: BPM_UnpinPgImp_def)
next
  fix f
  assume "PT_Find (page_table s) pid = Some f \<and> pin_count (page_at s f) \<le> 0"
  then show "BPM_UnpinPgImp s pid dirty = Inr (False, s)"
    by (simp add: BPM_UnpinPgImp_def)
next
  fix f
  assume a: "PT_Find (page_table s) pid = Some f \<and> 0 < pin_count (page_at s f) \<and>
        nat f < length (pages s) \<and> to_size_t f \<le> replacer_size (replacer s)"
  let ?p = "(page_at s f)\<lparr>pin_count := pin_count (page_at s f) - 1,
                           is_dirty := is_dirty (page_at s f) \<or> dirty\<rparr>"
  have ne: "fst (LRUK_SetEvictable (replacer s) f True) = None"
    using a by (intro SetEvictable_no_error) simp
  let ?r = "if pin_count (page_at s f) = 1
            then snd (LRUK_SetEvictable (replacer s) f True) else replacer s"
  have run: "BPM_UnpinPgImp s pid dirty = Inr (True, (set_page s f ?p)\<lparr>replacer := ?r\<rparr>)"
    using a ne
    by (cases "LRUK_SetEvictable (replacer s) f True")
       (auto simp: BPM_UnpinPgImp_def Let_def set_page_def)
  have mark: "\<forall>n. pin_count (page_at s f) = 1 \<and> map_lookup (replacer s) f = Some n \<longrightarrow>
                map_lookup ?r f = Some (n\<lparr>evictable := True\<rparr>)"
    using a by (auto simp: lookup_SetEvictable)
  show "\<exists>s'. BPM_UnpinPgImp s pid dirty = Inr (True, s') \<and>
              page_at s' f = ?p \<and>
              (\<forall>g. g \<noteq> nat f \<longrightarrow> pages s' ! g = pages s ! g) \<and>
              length (pages s') = length (pages s) \<and>
              replacer s' = ?r \<and>
              (\<forall>n. pin_count (page_at s f) = 1 \<and> map_lookup (replacer s) f = Some n \<longrightarrow>
                   map_lookup (replacer s') f = Some (n\<lparr>evictable := True\<rparr>)) \<and>
              page_table s' = page_table s \<and> free_list s' = free_list s \<and> disk s' = disk s \<and>
              next_alloc_page_id s' = next_alloc_page_id s \<and> pool_size s' = pool_size s"
    apply (rule exI [of _ "(set_page s f ?p)\<lparr>replacer := ?r\<rparr>"])
    using a mark run by (simp add: set_page_def page_at_def)
qed

text \<open>
  Claim C9. \<open>UnpinPgImp\<close> returns false and leaves the buffer pool as it was when the page is
  not in the page table or its pin count is not positive. Otherwise (the page is in frame
  \<open>f\<close> of the pool, a frame id the replacer accepts) it returns true; the pin count of the
  frame is one less, its dirty flag is the old flag or the argument, every other frame and
  every other component of the pool is as before; the replacer is the result of
  \<open>SetEvictable(f, true)\<close> when the pin count was 1 and is untouched otherwise, and after
  \<open>SetEvictable\<close> the node of a tracked frame has its evictable flag set.
\<close>

theorem unpin_page_contract:
  "(PT_Find (page_table s) pid = None \<longrightarrow> BPM_UnpinPgImp s pid dirty = Inr (False, s)) \<and>
   (\<forall>f. PT_Find (page_table s) pid = Some f \<and> pin_count (page_at s f) \<le> 0 \<longrightarrow>
        BPM_UnpinPgImp s pid dirty = Inr (False, s)) \<and>
   (\<forall>f. PT_Find (page_table s) pid = Some f \<and> 0 < pin_count (page_at s f) \<and>
        nat f < length (pages s) \<and> to_size_t f \<le> replacer_size (replacer s) \<longrightarrow>
        (\<exists>s'. BPM_UnpinPgImp s pid dirty = Inr (True, s') \<and>
              page_at s' f = (page_at s f)\<lparr>pin_count := pin_count (page_at s f) - 1,
                                            is_dirty := is_dirty (page_at s f) \<or> dirty\<rparr> \<and>
              (\<forall>g. g \<noteq> nat f \<longrightarrow> pages s' ! g = pages s ! g) \<and>
              length (pages s') = length (pages s) \<and>
              replacer s' = (if pin_count (page_at s f) = 1
                             then snd (LRUK_SetEvictable (replacer s) f True) else replacer s) \<and>
              (\<forall>n. pin_count (page_at s f) = 1 \<and> map_lookup (replacer s) f = Some n \<longrightarrow>
                   map_lookup (replacer s') f = Some (n\<lparr>evictable := True\<rparr>)) \<and>
              page_table s' = page_table s \<and> free_list s' = free_list s \<and> disk s' = disk s \<and>
              next_alloc_page_id s' = next_alloc_page_id s \<and> pool_size s' = pool_size s))"
  by (rule UnpinPgImp_effect)

lemma one_page_pool_facts:
  "PT_Find (page_table one_page_pool) 7 = None"
  "PT_Find (page_table one_page_pool) 0 = Some 2"
  "pin_count (page_at one_page_pool 2) = 1"
  "is_dirty (page_at one_page_pool 2) = False"
  "nat 2 < length (pages one_page_pool)"
  "to_size_t 2 \<le> replacer_size (replacer one_page_pool)"
  "map_lookup (replacer one_page_pool) 2 = Some \<lparr>key = 2, frequency = 1, evictable = False\<rparr>"
  by code_simp+

text \<open>
  A pool of three frames after one \<open>NewPgImp\<close>: page 0 is in frame 2 with pin count 1.
\<close>

theorem unpin_page_contract_witness:
  "BPM_UnpinPgImp one_page_pool 7 True = Inr (False, one_page_pool) \<and>
   (\<exists>s'. BPM_UnpinPgImp one_page_pool 0 True = Inr (True, s') \<and>
         pin_count (page_at s' 2) = 0 \<and> is_dirty (page_at s' 2) \<and>
         map_lookup (replacer s') 2 = Some \<lparr>key = 2, frequency = 1, evictable = True\<rparr> \<and>
         BPM_UnpinPgImp s' 0 False = Inr (False, s'))"
proof -
  have 1: "BPM_UnpinPgImp one_page_pool 7 True = Inr (False, one_page_pool)"
    using unpin_page_contract [of one_page_pool 7 True] one_page_pool_facts(1) by simp
  obtain s' where s': "BPM_UnpinPgImp one_page_pool 0 True = Inr (True, s')"
    "page_at s' 2 = (page_at one_page_pool 2)\<lparr>pin_count := pin_count (page_at one_page_pool 2) - 1,
                        is_dirty := is_dirty (page_at one_page_pool 2) \<or> True\<rparr>"
    "map_lookup (replacer s') 2 = Some (\<lparr>key = 2, frequency = 1, evictable = False\<rparr>\<lparr>evictable := True\<rparr>)"
    "page_table s' = page_table one_page_pool"
    using unpin_page_contract [of one_page_pool 0 True] one_page_pool_facts by auto
  have 2: "pin_count (page_at s' 2) = 0" "is_dirty (page_at s' 2)"
    using s'(2) one_page_pool_facts by simp_all
  have 3: "BPM_UnpinPgImp s' 0 False = Inr (False, s')"
    using unpin_page_contract [of s' 0 False] s'(4) one_page_pool_facts(2) 2 by simp
  show ?thesis using 1 s'(1,3) 2 3 by simp
qed

lemma Evict_None_unchanged: "fst (LRUK_Evict r) = None \<Longrightarrow> snd (LRUK_Evict r) = r"
  by (auto simp: LRUK_Evict_def split: option.splits if_splits)

lemma num_evictable_0_iff: "num_evictable r = 0 \<longleftrightarrow> (\<forall>n\<in>set (tracked r). \<not> evictable n)"
  by (auto simp: num_evictable_def filter_empty_conv)

lemma Evict_None_iff:
  assumes "replacer_inv r"
  shows "fst (LRUK_Evict r) = None \<longleftrightarrow> num_evictable r = 0"
proof (cases "num_evictable r = 0")
  case True
  then have "LRUK_Size r = 0" using inv_Size [OF assms] by simp
  then show ?thesis using True by (simp add: LRUK_Evict_def)
next
  case False
  then have sz: "LRUK_Size r \<noteq> 0" using inv_Size [OF assms] by simp
  from False obtain n where "n \<in> set (tracked r)" "evictable n"
    by (auto simp: num_evictable_0_iff)
  then have "first_evictable (rev (fifo_list r) @ rev (lru_list r)) \<noteq> None"
    by (auto simp: first_evictable_None tracked_def)
  then show ?thesis using sz False by (auto simp: LRUK_Evict_def)
qed

lemma Evict_Some_node:
  assumes "fst (LRUK_Evict r) = Some f"
  shows "\<exists>n\<in>set (tracked r). key n = f \<and> evictable n"
proof -
  from assms obtain n where "first_evictable (rev (fifo_list r) @ rev (lru_list r)) = Some n" "key n = f"
    by (auto simp: LRUK_Evict_def split: if_splits option.splits)
  then show ?thesis using first_evictable_Some [of "rev (fifo_list r) @ rev (lru_list r)" n]
    by (auto simp: tracked_def)
qed

lemma replacer_size_Evict: "replacer_size (snd (LRUK_Evict r)) = replacer_size r"
  by (auto simp: LRUK_Evict_def split: option.splits)

lemma map_find_append:
  "map_find (xs @ ys) f = (case map_find xs f of None \<Rightarrow> map_find ys f | Some n \<Rightarrow> Some n)"
  by (induction xs) auto

lemma map_find_unlink: "map_find (unlink f ns) f = None"
  by (simp add: map_find_None_iff set_unlink) auto

lemma lookup_RecordAccess:
  assumes "to_size_t f \<le> replacer_size r"
  shows "\<exists>n. map_lookup (snd (LRUK_RecordAccess r f)) f = Some n"
proof (cases "map_lookup r f")
  case None
  then show ?thesis using assms
    by (simp add: LRUK_RecordAccess_def map_lookup_def LinkedNode_new_def)
next
  case (Some n)
  then have k: "key n = f" using map_find_Some_mem [of "fifo_list r @ lru_list r" f n]
    by (simp add: map_lookup_def)
  let ?n' = "n\<lparr>frequency := frequency n + 1\<rparr>"
  show ?thesis
  proof (cases "repl_k r \<le> frequency n + 1")
    case True
    then show ?thesis using assms Some k
      by (simp add: LRUK_RecordAccess_def map_lookup_def Let_def map_find_append map_find_unlink)
  next
    case False
    have "map_find (set_node f ?n' (fifo_list r @ lru_list r)) f = Some ?n'"
      using Some k by (simp add: map_find_set_node map_lookup_def)
    then show ?thesis using assms Some False
      by (simp add: LRUK_RecordAccess_def map_lookup_def Let_def set_node_append)
  qed
qed

lemma replacer_size_RecordAccess: "replacer_size (snd (LRUK_RecordAccess r f)) = replacer_size r"
  by (auto simp: LRUK_RecordAccess_def Let_def split: option.splits)

lemma track_pinned_ok:
  assumes "to_size_t f \<le> replacer_size (replacer s)"
  shows "\<exists>r' n. track_pinned s f = Inr (s\<lparr>replacer := r'\<rparr>) \<and>
                map_lookup r' f = Some n \<and> \<not> evictable n"
proof -
  have "fst (LRUK_RecordAccess (replacer s) f) = None" using assms by (rule RecordAccess_no_error)
  then obtain r1 where r1: "LRUK_RecordAccess (replacer s) f = (None, r1)"
    by (cases "LRUK_RecordAccess (replacer s) f") auto
  have sz: "to_size_t f \<le> replacer_size r1"
    using assms replacer_size_RecordAccess [of "replacer s" f] r1 by simp
  obtain n where n: "map_lookup r1 f = Some n"
    using lookup_RecordAccess [OF assms] r1 by auto
  have "fst (LRUK_SetEvictable r1 f False) = None" using sz by (rule SetEvictable_no_error)
  then obtain r2 where r2: "LRUK_SetEvictable r1 f False = (None, r2)"
    by (cases "LRUK_SetEvictable r1 f False") auto
  have "map_lookup r2 f = Some (n\<lparr>evictable := False\<rparr>)"
    using lookup_SetEvictable [OF n sz, of False] r2 by simp
  moreover have "track_pinned s f = Inr (s\<lparr>replacer := r2\<rparr>)"
    using r1 r2 by (simp add: track_pinned_def)
  ultimately show ?thesis by (intro exI [of _ r2] exI [of _ "n\<lparr>evictable := False\<rparr>"]) simp
qed

lemma PT_Find_Insert: "PT_Find (PT_Insert t p f) q = (if q = p then Some f else PT_Find t q)"
  by (simp add: PT_Find_def PT_Insert_def update_conv')

lemma PT_Find_Remove: "PT_Find (PT_Remove t p) q = (if q = p then None else PT_Find t q)"
  by (simp add: PT_Find_def PT_Remove_def delete_conv')

lemma acquire_frame_None:
  assumes "bpm_wf s" and "free_list s = []" and "num_evictable (replacer s) = 0"
  shows "acquire_frame s = (None, s)"
proof -
  have inv: "replacer_inv (replacer s)" using assms(1) by (simp add: bpm_wf_def)
  have n: "fst (LRUK_Evict (replacer s)) = None" using Evict_None_iff [OF inv] assms(3) by simp
  then have "LRUK_Evict (replacer s) = (None, replacer s)"
    using Evict_None_unchanged [OF n] by (cases "LRUK_Evict (replacer s)") simp
  then show ?thesis using assms(2) by (simp add: acquire_frame_def)
qed

lemma acquire_frame_free:
  assumes "free_list s \<noteq> []"
  shows "acquire_frame s = (Some (last (free_list s)), s\<lparr>free_list := butlast (free_list s)\<rparr>)"
  using assms by (simp add: acquire_frame_def)

lemma acquire_frame_evict:
  assumes "free_list s = []" and "fst (LRUK_Evict (replacer s)) = Some f"
  shows "acquire_frame s = (Some f, after_evict s f)"
  using assms
  by (cases "LRUK_Evict (replacer s)")
     (auto simp: acquire_frame_def after_evict_def Let_def page_at_def set_page_def)

lemma after_evict_fields:
  "length (pages (after_evict s f)) = length (pages s)"
  "free_list (after_evict s f) = free_list s"
  "next_alloc_page_id (after_evict s f) = next_alloc_page_id s"
  "replacer (after_evict s f) = snd (LRUK_Evict (replacer s))"
  "page_table (after_evict s f) = PT_Remove (page_table s) (page_id (page_at s f))"
  "disk (after_evict s f) =
     (if is_dirty (page_at s f)
      then WritePage (disk s) (page_id (page_at s f)) (data (page_at s f)) else disk s)"
  by (simp_all add: after_evict_def Let_def set_page_def)

lemma NewPgImp_with_frame:
  assumes acq: "acquire_frame s = (Some f, s1)"
    and rng: "0 \<le> f" "nat f < length (pages s1)" "to_size_t f \<le> replacer_size (replacer s1)"
  shows "\<exists>s'. BPM_NewPgImp s = Inr (Some (next_alloc_page_id s1, f), s') \<and>
              next_alloc_page_id s' = next_alloc_page_id s1 + 1 \<and>
              page_at s' f = \<lparr>data = zeroed, page_id = next_alloc_page_id s1, pin_count = 1,
                               is_dirty = False\<rparr> \<and>
              PT_Find (page_table s') (next_alloc_page_id s1) = Some f \<and>
              (\<forall>q. q \<noteq> next_alloc_page_id s1 \<longrightarrow> PT_Find (page_table s') q = PT_Find (page_table s1) q) \<and>
              (\<exists>n. map_lookup (replacer s') f = Some n \<and> \<not> evictable n) \<and>
              free_list s' = free_list s1 \<and> disk s' = disk s1"
proof -
  let ?id = "next_alloc_page_id s1"
  let ?s4 = "(set_page (s1\<lparr>next_alloc_page_id := ?id + 1\<rparr>) f
                \<lparr>data = zeroed, page_id = ?id, pin_count = 1, is_dirty = False\<rparr>)
               \<lparr>page_table := PT_Insert (page_table s1) ?id f\<rparr>"
  have "to_size_t f \<le> replacer_size (replacer ?s4)" using rng(3) by (simp add: set_page_def)
  then obtain r' n where t: "track_pinned ?s4 f = Inr (?s4\<lparr>replacer := r'\<rparr>)"
    "map_lookup r' f = Some n" "\<not> evictable n"
    using track_pinned_ok [of f ?s4] by blast
  have run: "BPM_NewPgImp s = Inr (Some (?id, f), ?s4\<lparr>replacer := r'\<rparr>)"
    using acq t(1) by (simp add: BPM_NewPgImp_def Let_def set_page_def)
  show ?thesis
    apply (rule exI [of _ "?s4\<lparr>replacer := r'\<rparr>"])
    using run t(2,3) rng(2) by (simp add: set_page_def page_at_def PT_Find_Insert)
qed

lemma ReadPage_WritePage: "ReadPage (WritePage d p x) p = x"
  by (simp add: ReadPage_def WritePage_def update_conv')

text \<open>
  Claim C8. In a well-formed pool (\<open>bpm_wf\<close>: the replacer's counters are right, the frames in
  the free list and the evictable frames are frames of the pool with pin count 0),
  \<open>NewPgImp\<close> returns null, changing nothing, when the free list is empty and no frame is
  evictable. Otherwise it returns the page id \<open>next_alloc_page_id\<close> in a frame whose page has
  zeroed contents, pin count 1 and a clear dirty flag, entered in the page table and tracked
  as not evictable by the replacer. The frame is the back of the free list when there is
  one, with the disk untouched; otherwise it is the frame \<open>Evict\<close> returns, and when its old
  page was dirty the old contents are on disk under the old page id afterwards.
\<close>

theorem new_page_contract:
  assumes wf: "bpm_wf s"
  shows "(free_list s = [] \<and> num_evictable (replacer s) = 0 \<longrightarrow> BPM_NewPgImp s = Inr (None, s)) \<and>
         (free_list s \<noteq> [] \<longrightarrow>
            (\<exists>s'. BPM_NewPgImp s = Inr (Some (next_alloc_page_id s, last (free_list s)), s') \<and>
                  fresh_page s s' (last (free_list s)) \<and>
                  free_list s' = butlast (free_list s) \<and> disk s' = disk s)) \<and>
         (free_list s = [] \<and> num_evictable (replacer s) \<noteq> 0 \<longrightarrow>
            (\<exists>f s'. fst (LRUK_Evict (replacer s)) = Some f \<and>
                  BPM_NewPgImp s = Inr (Some (next_alloc_page_id s, f), s') \<and>
                  fresh_page s s' f \<and> free_list s' = [] \<and>
                  pin_count (page_at s f) = 0 \<and>
                  (if is_dirty (page_at s f)
                   then disk s' = WritePage (disk s) (page_id (page_at s f)) (data (page_at s f)) \<and>
                        ReadPage (disk s') (page_id (page_at s f)) = data (page_at s f)
                   else disk s' = disk s)))"
proof (intro conjI impI)
  assume "free_list s = [] \<and> num_evictable (replacer s) = 0"
  then have "acquire_frame s = (None, s)" using acquire_frame_None [OF wf] by simp
  then show "BPM_NewPgImp s = Inr (None, s)" by (simp add: BPM_NewPgImp_def)
next
  assume ne: "free_list s \<noteq> []"
  let ?f = "last (free_list s)"
  let ?s1 = "s\<lparr>free_list := butlast (free_list s)\<rparr>"
  have acq: "acquire_frame s = (Some ?f, ?s1)" using ne by (rule acquire_frame_free)
  have "?f \<in> set (free_list s)" using ne by simp
  then have f: "0 \<le> ?f" "nat ?f < length (pages s)"
    using wf by (auto simp: bpm_wf_def list_all_iff)
  have "?f < 2 ^ 64" "?f \<le> replacer_size (replacer s)" using f wf by (auto simp: bpm_wf_def)
  then have sz: "to_size_t ?f \<le> replacer_size (replacer ?s1)"
    using f(1) by (simp add: to_size_t_nonneg)
  obtain s' where s': "BPM_NewPgImp s = Inr (Some (next_alloc_page_id ?s1, ?f), s')"
    "next_alloc_page_id s' = next_alloc_page_id ?s1 + 1"
    "page_at s' ?f = \<lparr>data = zeroed, page_id = next_alloc_page_id ?s1, pin_count = 1, is_dirty = False\<rparr>"
    "PT_Find (page_table s') (next_alloc_page_id ?s1) = Some ?f"
    "\<exists>n. map_lookup (replacer s') ?f = Some n \<and> \<not> evictable n"
    "free_list s' = free_list ?s1" "disk s' = disk ?s1"
    using NewPgImp_with_frame [OF acq f(1) _ sz] f(2) by auto
  show "\<exists>s'. BPM_NewPgImp s = Inr (Some (next_alloc_page_id s, ?f), s') \<and>
              fresh_page s s' ?f \<and> free_list s' = butlast (free_list s) \<and> disk s' = disk s"
    by (rule exI [of _ s']) (use s' in \<open>simp add: fresh_page_def\<close>)
next
  assume a: "free_list s = [] \<and> num_evictable (replacer s) \<noteq> 0"
  have inv: "replacer_inv (replacer s)" using wf by (simp add: bpm_wf_def)
  obtain f where ev: "fst (LRUK_Evict (replacer s)) = Some f"
    using Evict_None_iff [OF inv] a by (cases "fst (LRUK_Evict (replacer s))") auto
  obtain n where n: "n \<in> set (tracked (replacer s))" "key n = f" "evictable n"
    using Evict_Some_node [OF ev] by blast
  have f: "0 \<le> f" "nat f < length (pages s)" "pin_count (page_at s f) = 0"
    using wf n by (auto simp: bpm_wf_def list_all_iff)
  let ?s1 = "after_evict s f"
  have acq: "acquire_frame s = (Some f, ?s1)" using a ev by (simp add: acquire_frame_evict)
  have "f < 2 ^ 64" "f \<le> replacer_size (replacer s)" using f wf by (auto simp: bpm_wf_def)
  then have sz: "to_size_t f \<le> replacer_size (replacer ?s1)"
    using f(1) by (simp add: to_size_t_nonneg after_evict_fields replacer_size_Evict)
  have len: "nat f < length (pages ?s1)" using f(2) by (simp add: after_evict_fields)
  obtain s' where s': "BPM_NewPgImp s = Inr (Some (next_alloc_page_id ?s1, f), s')"
    "next_alloc_page_id s' = next_alloc_page_id ?s1 + 1"
    "page_at s' f = \<lparr>data = zeroed, page_id = next_alloc_page_id ?s1, pin_count = 1, is_dirty = False\<rparr>"
    "PT_Find (page_table s') (next_alloc_page_id ?s1) = Some f"
    "\<exists>n. map_lookup (replacer s') f = Some n \<and> \<not> evictable n"
    "free_list s' = free_list ?s1" "disk s' = disk ?s1"
    using NewPgImp_with_frame [OF acq f(1) len sz] by auto
  show "\<exists>f s'. fst (LRUK_Evict (replacer s)) = Some f \<and>
                  BPM_NewPgImp s = Inr (Some (next_alloc_page_id s, f), s') \<and>
                  fresh_page s s' f \<and> free_list s' = [] \<and>
                  pin_count (page_at s f) = 0 \<and>
                  (if is_dirty (page_at s f)
                   then disk s' = WritePage (disk s) (page_id (page_at s f)) (data (page_at s f)) \<and>
                        ReadPage (disk s') (page_id (page_at s f)) = data (page_at s f)
                   else disk s' = disk s)"
    apply (rule exI [of _ f], rule exI [of _ s'])
    using ev s' f(3) a by (simp add: fresh_page_def after_evict_fields ReadPage_WritePage)
qed

lemma pool_facts:
  "bpm_wf pinned_pool" "free_list pinned_pool = []" "num_evictable (replacer pinned_pool) = 0"
  "bpm_wf dirty_pool" "free_list dirty_pool = []" "num_evictable (replacer dirty_pool) = 1"
  "is_dirty (page_at dirty_pool 0)" "page_id (page_at dirty_pool 0) = 0"
  "data (page_at dirty_pool 0) = zeroed\<lparr>cur_size := 7\<rparr>"
  "next_alloc_page_id dirty_pool = 1"
  "bpm_wf one_page_pool" "free_list one_page_pool = [0, 1]" "next_alloc_page_id one_page_pool = 1"
  by code_simp+

text \<open>
  \<open>pinned_pool\<close> has one frame, pinned; \<open>one_page_pool\<close> has two free frames; \<open>dirty_pool\<close> has one
  frame, unpinned and dirty, with contents that differ from a zeroed page.
\<close>

theorem new_page_contract_witness:
  "BPM_NewPgImp pinned_pool = Inr (None, pinned_pool) \<and>
   (\<exists>s'. BPM_NewPgImp one_page_pool = Inr (Some (1, 1), s') \<and>
         page_at s' 1 = \<lparr>data = zeroed, page_id = 1, pin_count = 1, is_dirty = False\<rparr> \<and>
         free_list s' = [0]) \<and>
   (\<exists>s'. BPM_NewPgImp dirty_pool = Inr (Some (1, 0), s') \<and>
         page_at s' 0 = \<lparr>data = zeroed, page_id = 1, pin_count = 1, is_dirty = False\<rparr> \<and>
         ReadPage (disk s') 0 = zeroed\<lparr>cur_size := 7\<rparr>)"
proof -
  have 1: "BPM_NewPgImp pinned_pool = Inr (None, pinned_pool)"
    using new_page_contract [OF pool_facts(1)] pool_facts(2,3) by simp
  have 2: "\<exists>s'. BPM_NewPgImp one_page_pool = Inr (Some (1, 1), s') \<and>
         page_at s' 1 = \<lparr>data = zeroed, page_id = 1, pin_count = 1, is_dirty = False\<rparr> \<and>
         free_list s' = [0]"
    using new_page_contract [OF pool_facts(11)] pool_facts(12,13) by (auto simp: fresh_page_def)
  have e: "fst (LRUK_Evict (replacer dirty_pool)) = Some 0" by code_simp
  have 3: "\<exists>s'. BPM_NewPgImp dirty_pool = Inr (Some (1, 0), s') \<and>
         page_at s' 0 = \<lparr>data = zeroed, page_id = 1, pin_count = 1, is_dirty = False\<rparr> \<and>
         ReadPage (disk s') 0 = zeroed\<lparr>cur_size := 7\<rparr>"
    using new_page_contract [OF pool_facts(4)] pool_facts(5-10) e by (auto simp: fresh_page_def)
  show ?thesis using 1 2 3 by blast
qed

section \<open>The index iterator\<close>

lemma frame_in_range:
  assumes "bpm_wf s" and "0 \<le> f" and "nat f < length (pages s)"
  shows "to_size_t f \<le> replacer_size (replacer s)"
proof -
  have "f < 2 ^ 64" "f \<le> replacer_size (replacer s)" using assms by (auto simp: bpm_wf_def)
  then show ?thesis using assms(2) by (simp add: to_size_t_nonneg)
qed

lemma pins_set_page:
  "nat f < length (pages s) \<Longrightarrow> pin_count p = pin_count (page_at s f) \<Longrightarrow>
   map pin_count (pages (set_page s f p)) = map pin_count (pages s)"
  by (simp add: set_page_def page_at_def map_update list_update_same_conv)

lemma replacer_size_SetEvictable: "replacer_size (snd (LRUK_SetEvictable r f b)) = replacer_size r"
  by (auto simp: LRUK_SetEvictable_def Let_def split: option.splits)

lemma track_pinned_fields:
  assumes "track_pinned s f = Inr s'"
  shows "replacer_size (replacer s') = replacer_size (replacer s)" and "s' = s\<lparr>replacer := replacer s'\<rparr>"
proof -
  obtain r1 where r1: "LRUK_RecordAccess (replacer s) f = (None, r1)"
    using assms by (auto simp: track_pinned_def split: prod.splits option.splits)
  obtain r2 where r2: "LRUK_SetEvictable r1 f False = (None, r2)"
    using assms r1 by (auto simp: track_pinned_def split: prod.splits option.splits)
  have s': "s' = s\<lparr>replacer := r2\<rparr>" using assms r1 r2 by (simp add: track_pinned_def)
  have "replacer_size r2 = replacer_size (replacer s)"
    using replacer_size_SetEvictable [of r1 f False] replacer_size_RecordAccess [of "replacer s" f] r1 r2
    by simp
  then show "replacer_size (replacer s') = replacer_size (replacer s)" using s' by simp
  show "s' = s\<lparr>replacer := replacer s'\<rparr>" using s' by simp
qed

lemma fetch_unpin_resident:
  assumes wf: "bpm_wf s" and res: "PT_Find (page_table s) pid = Some f"
  shows "\<exists>s1 s2. BPM_FetchPgImp s pid = Inr (Some f, s1) \<and>
                 BPM_UnpinPgImp s1 pid False = Inr (True, s2) \<and>
                 map pin_count (pages s2) = map pin_count (pages s) \<and>
                 PT_Find (page_table s2) pid = Some f"
proof -
  have "(pid, f) \<in> set (page_table s)" using res by (auto simp: PT_Find_def dest: map_of_SomeD)
  then have f: "0 \<le> f" "nat f < length (pages s)"
    using wf by (auto simp: bpm_wf_def list_all_iff)
  have pc: "0 \<le> pin_count (page_at s f)"
    using wf f(2) by (auto simp: bpm_wf_def list_all_iff page_at_def)
  have sz: "to_size_t f \<le> replacer_size (replacer s)" using wf f by (rule frame_in_range)
  let ?p = "page_at s f"
  let ?s0 = "set_page s f (?p\<lparr>pin_count := pin_count ?p + 1\<rparr>)"
  have "to_size_t f \<le> replacer_size (replacer ?s0)" using sz by (simp add: set_page_def)
  then obtain r' n where t: "track_pinned ?s0 f = Inr (?s0\<lparr>replacer := r'\<rparr>)"
    using track_pinned_ok [of f ?s0] by blast
  let ?s1 = "?s0\<lparr>replacer := r'\<rparr>"
  have fe: "BPM_FetchPgImp s pid = Inr (Some f, ?s1)"
    using res t by (simp add: BPM_FetchPgImp_def Let_def)
  have rs: "replacer_size r' = replacer_size (replacer s)"
    using track_pinned_fields(1) [OF t] by (simp add: set_page_def)
  have p1: "page_at ?s1 f = ?p\<lparr>pin_count := pin_count ?p + 1\<rparr>"
    using f(2) by (simp add: set_page_def page_at_def)
  have "PT_Find (page_table ?s1) pid = Some f \<and> 0 < pin_count (page_at ?s1 f) \<and>
        nat f < length (pages ?s1) \<and> to_size_t f \<le> replacer_size (replacer ?s1)"
    using res pc f(2) sz rs p1 by (simp add: set_page_def)
  then obtain s2 where s2: "BPM_UnpinPgImp ?s1 pid False = Inr (True, s2)"
    "page_at s2 f = (page_at ?s1 f)\<lparr>pin_count := pin_count (page_at ?s1 f) - 1,
                                   is_dirty := is_dirty (page_at ?s1 f) \<or> False\<rparr>"
    "\<forall>g. g \<noteq> nat f \<longrightarrow> pages s2 ! g = pages ?s1 ! g"
    "length (pages s2) = length (pages ?s1)" "page_table s2 = page_table ?s1"
    using UnpinPgImp_effect [of ?s1 pid False] by blast
  have "map pin_count (pages s2) = map pin_count (pages s)"
  proof (rule nth_equalityI)
    show "length (map pin_count (pages s2)) = length (map pin_count (pages s))"
      using s2(4) by (simp add: set_page_def)
  next
    fix i assume "i < length (map pin_count (pages s2))"
    then have i: "i < length (pages s)" using s2(4) by (simp add: set_page_def)
    show "map pin_count (pages s2) ! i = map pin_count (pages s) ! i"
    proof (cases "i = nat f")
      case True
      then show ?thesis using i s2(2,4) p1 by (simp add: page_at_def set_page_def)
    next
      case False
      then show ?thesis using i s2(3,4) by (simp add: set_page_def)
    qed
  qed
  then show ?thesis using fe s2(1,5) res by (auto simp: set_page_def)
qed

lemma fetch_unpin_with_frame:
  assumes acq: "acquire_frame s = (Some f, s1)" and notres: "PT_Find (page_table s) pid = None"
    and rng: "0 \<le> f" "nat f < length (pages s1)" "to_size_t f \<le> replacer_size (replacer s1)"
    and pin0: "pin_count (page_at s1 f) = 0"
  shows "\<exists>s2 s3. BPM_FetchPgImp s pid = Inr (Some f, s2) \<and>
                 BPM_UnpinPgImp s2 pid False = Inr (True, s3) \<and>
                 map pin_count (pages s3) = map pin_count (pages s1) \<and>
                 PT_Find (page_table s3) pid = Some f"
proof -
  let ?np = "\<lparr>data = ReadPage (disk s1) pid, page_id = pid, pin_count = 1, is_dirty = False\<rparr>"
  let ?s3 = "(set_page s1 f ?np)\<lparr>page_table := PT_Insert (page_table s1) pid f\<rparr>"
  have "to_size_t f \<le> replacer_size (replacer ?s3)" using rng(3) by (simp add: set_page_def)
  then obtain r' n where t: "track_pinned ?s3 f = Inr (?s3\<lparr>replacer := r'\<rparr>)"
    using track_pinned_ok [of f ?s3] by blast
  let ?s4 = "?s3\<lparr>replacer := r'\<rparr>"
  have fe: "BPM_FetchPgImp s pid = Inr (Some f, ?s4)"
    using notres acq t by (simp add: BPM_FetchPgImp_def Let_def set_page_def)
  have rs: "replacer_size r' = replacer_size (replacer s1)"
    using track_pinned_fields(1) [OF t] by (simp add: set_page_def)
  have p1: "page_at ?s4 f = ?np" using rng(2) by (simp add: set_page_def page_at_def)
  have "PT_Find (page_table ?s4) pid = Some f \<and> 0 < pin_count (page_at ?s4 f) \<and>
        nat f < length (pages ?s4) \<and> to_size_t f \<le> replacer_size (replacer ?s4)"
    using rng rs p1 by (simp add: set_page_def PT_Find_Insert)
  then obtain s5 where s5: "BPM_UnpinPgImp ?s4 pid False = Inr (True, s5)"
    "page_at s5 f = (page_at ?s4 f)\<lparr>pin_count := pin_count (page_at ?s4 f) - 1,
                                   is_dirty := is_dirty (page_at ?s4 f) \<or> False\<rparr>"
    "\<forall>g. g \<noteq> nat f \<longrightarrow> pages s5 ! g = pages ?s4 ! g"
    "length (pages s5) = length (pages ?s4)" "page_table s5 = page_table ?s4"
    using UnpinPgImp_effect [of ?s4 pid False] by blast
  have "map pin_count (pages s5) = map pin_count (pages s1)"
  proof (rule nth_equalityI)
    show "length (map pin_count (pages s5)) = length (map pin_count (pages s1))"
      using s5(4) by (simp add: set_page_def)
  next
    fix i assume "i < length (map pin_count (pages s5))"
    then have i: "i < length (pages s1)" using s5(4) by (simp add: set_page_def)
    show "map pin_count (pages s5) ! i = map pin_count (pages s1) ! i"
    proof (cases "i = nat f")
      case True
      then show ?thesis using i s5(2,4) p1 pin0 by (simp add: page_at_def set_page_def)
    next
      case False
      then show ?thesis using i s5(3,4) by (simp add: set_page_def)
    qed
  qed
  then show ?thesis using fe s5(1,5) by (auto simp: set_page_def PT_Find_Insert)
qed

lemma pins_after_evict:
  assumes "nat f < length (pages s)"
  shows "map pin_count (pages (after_evict s f)) = map pin_count (pages s)"
    and "pin_count (page_at (after_evict s f) f) = pin_count (page_at s f)"
  using assms
  by (simp_all add: after_evict_def Let_def set_page_def page_at_def map_update list_update_same_conv)

lemma fetch_unpin:
  assumes wf: "bpm_wf s"
  shows "(PT_Find (page_table s) pid = None \<and> free_list s = [] \<and> num_evictable (replacer s) = 0 \<longrightarrow>
            BPM_FetchPgImp s pid = Inr (None, s)) \<and>
         (\<not> (PT_Find (page_table s) pid = None \<and> free_list s = [] \<and> num_evictable (replacer s) = 0) \<longrightarrow>
            (\<exists>f s1 s2. BPM_FetchPgImp s pid = Inr (Some f, s1) \<and>
                 BPM_UnpinPgImp s1 pid False = Inr (True, s2) \<and>
                 map pin_count (pages s2) = map pin_count (pages s) \<and>
                 PT_Find (page_table s2) pid = Some f))"
proof (intro conjI impI)
  assume a: "PT_Find (page_table s) pid = None \<and> free_list s = [] \<and> num_evictable (replacer s) = 0"
  then have "acquire_frame s = (None, s)" using acquire_frame_None [OF wf] by simp
  then show "BPM_FetchPgImp s pid = Inr (None, s)" using a by (simp add: BPM_FetchPgImp_def)
next
  assume a: "\<not> (PT_Find (page_table s) pid = None \<and> free_list s = [] \<and> num_evictable (replacer s) = 0)"
  show "\<exists>f s1 s2. BPM_FetchPgImp s pid = Inr (Some f, s1) \<and>
                 BPM_UnpinPgImp s1 pid False = Inr (True, s2) \<and>
                 map pin_count (pages s2) = map pin_count (pages s) \<and>
                 PT_Find (page_table s2) pid = Some f"
  proof (cases "PT_Find (page_table s) pid")
    case (Some f)
    then show ?thesis using fetch_unpin_resident [OF wf Some] by blast
  next
    case None
    show ?thesis
    proof (cases "free_list s = []")
      case False
      let ?f = "last (free_list s)"
      let ?s1 = "s\<lparr>free_list := butlast (free_list s)\<rparr>"
      have acq: "acquire_frame s = (Some ?f, ?s1)" using False by (rule acquire_frame_free)
      have "?f \<in> set (free_list s)" using False by simp
      then have f: "0 \<le> ?f" "nat ?f < length (pages s)" "pin_count (page_at s ?f) = 0"
        using wf by (auto simp: bpm_wf_def list_all_iff)
      have sz: "to_size_t ?f \<le> replacer_size (replacer ?s1)"
        using frame_in_range [OF wf f(1,2)] by simp
      have "\<exists>s2 s3. BPM_FetchPgImp s pid = Inr (Some ?f, s2) \<and>
                 BPM_UnpinPgImp s2 pid False = Inr (True, s3) \<and>
                 map pin_count (pages s3) = map pin_count (pages ?s1) \<and>
                 PT_Find (page_table s3) pid = Some ?f"
        by (rule fetch_unpin_with_frame [OF acq None f(1) _ sz])
           (use f in \<open>simp_all add: page_at_def\<close>)
      then show ?thesis by auto
    next
      case True
      then have ne: "num_evictable (replacer s) \<noteq> 0" using a None by simp
      have inv: "replacer_inv (replacer s)" using wf by (simp add: bpm_wf_def)
      obtain f where ev: "fst (LRUK_Evict (replacer s)) = Some f"
        using Evict_None_iff [OF inv] ne by (cases "fst (LRUK_Evict (replacer s))") auto
      obtain n where n: "n \<in> set (tracked (replacer s))" "key n = f" "evictable n"
        using Evict_Some_node [OF ev] by blast
      have f: "0 \<le> f" "nat f < length (pages s)" "pin_count (page_at s f) = 0"
        using wf n by (auto simp: bpm_wf_def list_all_iff)
      let ?s1 = "after_evict s f"
      have acq: "acquire_frame s = (Some f, ?s1)" using True ev by (simp add: acquire_frame_evict)
      have sz: "to_size_t f \<le> replacer_size (replacer ?s1)"
        using frame_in_range [OF wf f(1,2)] by (simp add: after_evict_fields replacer_size_Evict)
      have len: "nat f < length (pages ?s1)" using f(2) by (simp add: after_evict_fields)
      have p0: "pin_count (page_at ?s1 f) = 0" using pins_after_evict(2) [OF f(2)] f(3) by simp
      have "\<exists>s2 s3. BPM_FetchPgImp s pid = Inr (Some f, s2) \<and>
                 BPM_UnpinPgImp s2 pid False = Inr (True, s3) \<and>
                 map pin_count (pages s3) = map pin_count (pages ?s1) \<and>
                 PT_Find (page_table s3) pid = Some f"
        by (rule fetch_unpin_with_frame [OF acq None f(1) len sz p0])
      then show ?thesis using pins_after_evict(1) [OF f(2)] by auto
    qed
  qed
qed

text \<open>
  Claim C6, as amended. In a well-formed pool, an increment at an entry before the last one
  of the leaf only advances the index: the pool is unchanged. At the last entry of a leaf
  with a successor, when the successor is resident or a frame can be had for it (one is free
  or evictable), the increment fetches the successor and unpins it again before it returns:
  the iterator is on the frame the page table gives for the successor, its index is 0, and
  every frame has the pin count it had before, so no pin on the successor is held and the
  leaf the iterator was on is not unpinned.
\<close>

theorem iterator_increment:
  assumes wf: "bpm_wf s" and cur: "leaf_node it = Some cur"
  shows "(key_index it < cur_size (leaf_of s cur) - 1 \<longrightarrow>
            Iterator_incr s it = Inr (it\<lparr>key_index := key_index it + 1\<rparr>, s)) \<and>
         (key_index it = cur_size (leaf_of s cur) - 1 \<and> 0 \<le> key_index it \<and>
          next_page_id (leaf_of s cur) \<noteq> - 1 \<and>
          \<not> (PT_Find (page_table s) (next_page_id (leaf_of s cur)) = None \<and> free_list s = [] \<and>
               num_evictable (replacer s) = 0) \<longrightarrow>
            (\<exists>f s'. Iterator_incr s it = Inr (\<lparr>leaf_node = Some f, key_index = 0\<rparr>, s') \<and>
                    PT_Find (page_table s') (next_page_id (leaf_of s cur)) = Some f \<and>
                    map pin_count (pages s') = map pin_count (pages s)))"
proof (intro conjI impI)
  assume "key_index it < cur_size (leaf_of s cur) - 1"
  then show "Iterator_incr s it = Inr (it\<lparr>key_index := key_index it + 1\<rparr>, s)"
    using cur by (simp add: Iterator_incr_def leaf_of_def Let_def)
next
  let ?next = "next_page_id (leaf_of s cur)"
  assume a: "key_index it = cur_size (leaf_of s cur) - 1 \<and> 0 \<le> key_index it \<and> ?next \<noteq> - 1 \<and>
             \<not> (PT_Find (page_table s) ?next = None \<and> free_list s = [] \<and>
                  num_evictable (replacer s) = 0)"
  then have unf: "Iterator_incr s it =
      (case BPM_FetchPgImp s ?next of
         Inl e \<Rightarrow> Inl e
       | Inr (next_page, s1) \<Rightarrow>
           (case BPM_UnpinPgImp s1 ?next False of
              Inl e \<Rightarrow> Inl e
            | Inr (b, s2) \<Rightarrow> Inr (\<lparr>leaf_node = next_page, key_index = 0\<rparr>, s2)))"
    using cur unfolding leaf_of_def by (simp add: Iterator_incr_def Let_def)
  obtain f s1 s2 where "BPM_FetchPgImp s ?next = Inr (Some f, s1)"
    "BPM_UnpinPgImp s1 ?next False = Inr (True, s2)"
    "map pin_count (pages s2) = map pin_count (pages s)"
    "PT_Find (page_table s2) ?next = Some f"
    using fetch_unpin [OF wf, of ?next] a by blast
  then show "\<exists>f s'. Iterator_incr s it = Inr (\<lparr>leaf_node = Some f, key_index = 0\<rparr>, s') \<and>
                    PT_Find (page_table s') ?next = Some f \<and>
                    map pin_count (pages s') = map pin_count (pages s)"
    using unf by simp
qed

lemma two_leaf_pool_facts:
  "bpm_wf two_leaf_pool"
  "cur_size (leaf_of two_leaf_pool 2) = 2"
  "next_page_id (leaf_of two_leaf_pool 2) = 1"
  "PT_Find (page_table two_leaf_pool) 1 = Some 1"
  "map pin_count (pages two_leaf_pool) = [0, 0, 1]"
  by code_simp+

text \<open>
  \<open>two_leaf_pool\<close> holds the leaf page 0 (keys 1, 2, successor page 1) in frame 2 with pin count
  1, and the leaf page 1 (keys 3, 4) in frame 1 with pin count 0.
\<close>

theorem iterator_increment_witness:
  "Iterator_incr two_leaf_pool \<lparr>leaf_node = Some 2, key_index = 0\<rparr> =
     Inr (\<lparr>leaf_node = Some 2, key_index = 1\<rparr>, two_leaf_pool) \<and>
   (\<exists>s'. Iterator_incr two_leaf_pool \<lparr>leaf_node = Some 2, key_index = 1\<rparr> =
            Inr (\<lparr>leaf_node = Some 1, key_index = 0\<rparr>, s') \<and>
          map pin_count (pages s') = [0, 0, 1])"
proof -
  have 1: "Iterator_incr two_leaf_pool \<lparr>leaf_node = Some 2, key_index = 0\<rparr> =
     Inr (\<lparr>leaf_node = Some 2, key_index = 1\<rparr>, two_leaf_pool)"
    using iterator_increment [OF two_leaf_pool_facts(1), of "\<lparr>leaf_node = Some 2, key_index = 0\<rparr>" 2]
      two_leaf_pool_facts(2) by simp
  obtain f s' where 2: "Iterator_incr two_leaf_pool \<lparr>leaf_node = Some 2, key_index = 1\<rparr> =
            Inr (\<lparr>leaf_node = Some f, key_index = 0\<rparr>, s')"
     "PT_Find (page_table s') 1 = Some f" "map pin_count (pages s') = [0, 0, 1]"
    using iterator_increment [OF two_leaf_pool_facts(1), of "\<lparr>leaf_node = Some 2, key_index = 1\<rparr>" 2]
      two_leaf_pool_facts(2-5) by auto
  have "Iterator_incr two_leaf_pool \<lparr>leaf_node = Some 2, key_index = 1\<rparr> =
            Inr (\<lparr>leaf_node = Some 1, key_index = 0\<rparr>,
                 snd (projr (Iterator_incr two_leaf_pool \<lparr>leaf_node = Some 2, key_index = 1\<rparr>)))"
    by code_simp
  then have "f = 1" using 2(1) by simp
  then show ?thesis using 1 2 by simp
qed

text \<open>
  After the increment from the last entry of page 0, the successor's pin count is 0, not one
  more than before, and the pin count of the leaf the iterator came from is still 1.
\<close>

theorem iterator_pins_counterexample:
  "(case Iterator_incr two_leaf_pool \<lparr>leaf_node = Some 2, key_index = 1\<rparr> of
      Inl e \<Rightarrow> False
    | Inr (it', s') \<Rightarrow>
        leaf_node it' = Some 1 \<and> key_index it' = 0 \<and>
        pin_count (page_at s' 1) \<noteq> pin_count (page_at two_leaf_pool 1) + 1 \<and>
        pin_count (page_at s' 2) \<noteq> pin_count (page_at two_leaf_pool 2) - 1 \<and>
        pin_count (page_at s' 1) = 0 \<and> pin_count (page_at s' 2) = 1)"
  by code_simp

section \<open>The B+ tree\<close>

text \<open>
  The runs of the tree on given keys are computed by rewriting with the definitions. The
  rules below rewrite the argument of a sequencing step, of a \<open>let\<close> and of a case
  distinction on a pair before the body, and replace the patterns on pairs in the bodies by
  projections, so that a body is rewritten only once its argument is known.
\<close>

lemma ebind_weak_cong: "m = m' \<Longrightarrow> ebind m f = ebind m' f"
  by simp

lemma Let_weak_cong: "a = b \<Longrightarrow> Let a t = Let b t"
  by simp

lemma replicate_num: "replicate (numeral k) x = x # replicate (pred_numeral k) x"
  by (simp add: numeral_eq_Suc)

lemma list_update_num: "(x # xs)[numeral k := y] = x # xs[pred_numeral k := y]"
  by (simp add: numeral_eq_Suc)

lemma upt_10: "map int [0..<10] = [0, 1, 2, 3, 4, 5, 6, 7, 8, 9]"
  by code_simp

lemmas pool_eval =
  BufferPoolManagerInstance_new_def Page_new_def zeroed_def page_at_def set_page_def
  PT_Find_def PT_Insert_def PT_Remove_def WritePage_def ReadPage_def acquire_frame_def
  track_pinned_def BPM_NewPgImp_def BPM_FetchPgImp_def BPM_UnpinPgImp_def BPM_FlushPgImp_def
  BPM_DeletePgImp_def
  LRUKReplacer_new_def LRUK_RecordAccess_def LRUK_SetEvictable_def LRUK_Evict_def
  LRUK_Remove_def LRUK_Size_def map_lookup_def to_size_t_def unlink_def set_node_def
  LinkedNode_new_def INVALID_PAGE_ID_def upt_10 replicate_num list_update_num

lemmas page_eval =
  array_at_def array_set_def IsLeafPage_def IsRootPage_def IncreaseSize_def
  KeyAt_def ValueAt_def SetKeyAt_def shift_right_def shift_left_def
  Leaf_Init_def Leaf_FindKey_def Leaf_FindIndex_def Leaf_InsertAfter_def Leaf_Insert_def
  Internal_Init_def Internal_FindIndex_def Internal_Insert_def Internal_InsertAfter_def
  Internal_SetValue0_def upto.simps

lemmas tree_rec_simps =
  FindLeaf_loop.simps(2) InsertIntoParent.simps(2) Insert_all.simps(2) Begin_loop.simps(2)
  End_loop.simps(2) scan_loop.simps(2)

lemmas tree_rec_eval =
  FindLeaf_loop.simps(2) [of "pred_numeral n" for n, unfolded case_prod_beta, folded numeral_eq_Suc]
  InsertIntoParent.simps(2) [of "pred_numeral n" for n, unfolded case_prod_beta, folded numeral_eq_Suc]
  Begin_loop.simps(2) [of "pred_numeral n" for n, unfolded case_prod_beta, folded numeral_eq_Suc]
  End_loop.simps(2) [of "pred_numeral n" for n, unfolded case_prod_beta, folded numeral_eq_Suc]
  scan_loop.simps(2) [of "pred_numeral n" for n, unfolded case_prod_beta, folded numeral_eq_Suc]
  FindLeaf_loop.simps(2) [unfolded case_prod_beta]
  InsertIntoParent.simps(2) [unfolded case_prod_beta]
  Begin_loop.simps(2) [unfolded case_prod_beta]
  End_loop.simps(2) [unfolded case_prod_beta]
  scan_loop.simps(2) [unfolded case_prod_beta]
  Insert_all.simps(2) [unfolded case_prod_beta]

lemmas tree_eval =
  HEADER_PAGE_ID_def BPlusTree_new_def FetchPage_def [unfolded case_prod_beta]
  NewPage_def [unfolded case_prod_beta] UnpinPage_def [unfolded case_prod_beta]
  DeletePage_def [unfolded case_prod_beta]
  node_def set_node_data_def IsEmpty_def UpdateRootPageId_def [unfolded case_prod_beta]
  FindLeaf_def [unfolded case_prod_beta] GetValue_def [unfolded case_prod_beta]
  copy_leaf_entries_def LeafSplit_def [unfolded case_prod_beta]
  InternalSplit_def [unfolded case_prod_beta] memcpy_page_def
  InsertIntoLeaf_def [unfolded case_prod_beta]
  Insert_def [unfolded case_prod_beta] header_pool_def ebind_Inl ebind_Inr Let_def
  tree_rec_eval
  Begin_def [unfolded case_prod_beta] End_def [unfolded case_prod_beta]
  Begin_at_def [unfolded case_prod_beta] scan_def [unfolded case_prod_beta]
  Iterator_deref_def Iterator_IsEnd_def Iterator_incr_def [unfolded case_prod_beta]
  page_entries_def resident_leaves_def resident_internals_def

text \<open>
  Claim C7. The tree has \<open>leaf_max_size = 4\<close> and \<open>internal_max_size = 4\<close>, on a pool of 10
  frames in which the header page is pinned, and the keys 1, 2, 3, 4, 5 are inserted in this
  order into the empty tree, each with itself as value. After 1, 2, 3 the root is the leaf
  page 1 with the entries 1, 2, 3. The insertion of 4 splits the root: the root is then the
  internal page 3, with the children 1 and 2 and the separator 3; the leaf page 1 keeps the
  lower half, 1 and 2, and the new leaf page 2, which is the next page of page 1 and ends the
  chain, holds the upper half, 3 and 4. After 5 there are exactly the two leaves, holding
  1, 2 and 3, 4, 5, and the scan from \<^verbatim>\<open>Begin()\<close> until \<^verbatim>\<open>IsEnd()\<close> yields 1, 2, 3, 4, 5 in order.
  The results list, for an internal page, its page id, parent and entries, and for a leaf
  page its page id, parent, next page and entries.
\<close>

theorem root_split_scenario:
  "ebind (Insert_all 10 (BPlusTree_new (header_pool 10 2) 4 4) [1, 2, 3])
     (\<lambda>t. Inr (root_page_id t, resident_internals t, resident_leaves t))
   = Inr (1, [], [(1, - 1, - 1, [(1, 1), (2, 2), (3, 3)])]) \<and>
   ebind (Insert_all 10 (BPlusTree_new (header_pool 10 2) 4 4) [1, 2, 3, 4])
     (\<lambda>t. Inr (root_page_id t, resident_internals t, resident_leaves t))
   = Inr (3, [(3, - 1, [(0, 1), (3, 2)])],
          [(2, 3, - 1, [(3, 3), (4, 4)]), (1, 3, 2, [(1, 1), (2, 2)])]) \<and>
   ebind (Insert_all 10 (BPlusTree_new (header_pool 10 2) 4 4) [1, 2, 3, 4, 5])
     (\<lambda>t. ebind (scan 10 t)
        (\<lambda>r. Inr (fst r, root_page_id t, resident_internals t, resident_leaves t)))
   = Inr ([(1, 1), (2, 2), (3, 3), (4, 4), (5, 5)], 3, [(3, - 1, [(0, 1), (3, 2)])],
          [(2, 3, - 1, [(3, 3), (4, 4), (5, 5)]), (1, 3, 2, [(1, 1), (2, 2)])])"
  by (simp add: pool_eval page_eval tree_eval del: tree_rec_simps
      cong: ebind_weak_cong Let_weak_cong prod.case_cong_weak)

text \<open>
  Claim C1, at an input on which the code breaks it. The tree has \<open>leaf_max_size = 4\<close> and
  \<open>internal_max_size = 4\<close>, on a pool of 10 frames, and holds the keys 10, 20, ..., 100 and
  71, inserted in this order. The key 72 is not in it: \<open>GetValue\<close> finds nothing. Then
  \<open>Insert(72, 72)\<close> returns true, and the \<open>GetValue(72)\<close> that follows finds nothing.

  The tenth insertion has split the internal page 3 into the pages 3 and 7 under the new
  root 8, and the leaf page 5 has gone to page 7 with the parent page id 3 it had:
  \<open>InsertIntoParent\<close> writes the parent page id of the one node it is called for, and no
  child that \<open>InternalSplit\<close> moves gets its new parent. So when the insertion of 72 splits the
  leaf page 5, the new leaf page 9 is entered with the separator 72 into page 3, where the
  search, which goes from the root to page 7 and the leaf page 5, does not come. The scan
  along the chain of the leaves still yields 72.
\<close>

theorem insert_then_get_value_fails:
  "ebind (Insert_all 10 (BPlusTree_new (header_pool 10 2) 4 4)
            [10, 20, 30, 40, 50, 60, 70, 80, 90, 100, 71]) (\<lambda>t.
   ebind (GetValue 10 t 72) (\<lambda>r0.
   ebind (Insert 10 (snd r0) 72 72) (\<lambda>r1.
   ebind (GetValue 10 (snd r1) 72) (\<lambda>r2.
   ebind (scan 20 (snd r2)) (\<lambda>r3.
   Inr (fst r0, fst r1, fst r2,
        resident_internals t, resident_leaves t,
        root_page_id (snd r2), resident_internals (snd r2), resident_leaves (snd r2),
        map fst (fst r3)))))))
   = Inr (None, True, None,
          [(8, - 1, [(0, 3), (70, 7)]), (7, 8, [(70, 5), (90, 6)]),
           (3, 8, [(0, 1), (30, 2), (50, 4)])],
          [(6, 7, - 1, [(90, 90), (100, 100)]),
           (5, 3, 6, [(70, 70), (71, 71), (80, 80)]),
           (4, 3, 5, [(50, 50), (60, 60)]), (2, 3, 4, [(30, 30), (40, 40)]),
           (1, 3, 2, [(10, 10), (20, 20)])],
          8,
          [(8, - 1, [(0, 3), (70, 7)]), (7, 8, [(70, 5), (90, 6)]),
           (3, 8, [(0, 1), (30, 2), (50, 4), (72, 9)])],
          [(9, 3, 6, [(72, 72), (80, 80)]),
           (6, 7, - 1, [(90, 90), (100, 100)]),
           (5, 3, 9, [(70, 70), (71, 71)]), (4, 3, 5, [(50, 50), (60, 60)]),
           (2, 3, 4, [(30, 30), (40, 40)]), (1, 3, 2, [(10, 10), (20, 20)])],
          [10, 20, 30, 40, 50, 60, 70, 71, 72, 80, 90, 100])"
  by (simp add: pool_eval page_eval tree_eval del: tree_rec_simps
      cong: ebind_weak_cong Let_weak_cong prod.case_cong_weak)

section \<open>Deletion\<close>

lemmas remove_rec_simps = MergeBrother.simps(2)

lemmas remove_eval =
  GetMinSize_def Leaf_Remove_def Leaf_PopBack_def Leaf_PushFront_def Leaf_PopFront_def
  Leaf_PushBack_def Internal_PopBack_def Internal_PushFront_def Internal_PopFront_def
  Internal_PushBack_def Internal_RemoveByIndex_def
  UpdataParentKey_def [unfolded case_prod_beta] redistribute_left_def [unfolded case_prod_beta]
  redistribute_right_def [unfolded case_prod_beta] RedistributeBrother_def [unfolded case_prod_beta]
  push_back_all_def assert_DeletePage_def Remove_def [unfolded case_prod_beta]
  MergeBrother.simps(2) [unfolded case_prod_beta]
  MergeBrother.simps(2) [of "pred_numeral n" for n, unfolded case_prod_beta, folded numeral_eq_Suc]

text \<open>
  Claim C5, at inputs on which the code breaks it. The tree has \<open>leaf_max_size = 4\<close> and
  \<open>internal_max_size = 4\<close>, on a pool of 10 frames; the minimum size of its leaves is 2.

  After the insertion of 10, 20, 30, 40, 50, 60, 70, 15 the root, page 3, has the leaves 1, 2
  and 4 with the entries 10, 15, 20 and 30, 40 and 50, 60, 70. \<open>Remove(30)\<close> leaves page 2, the
  child at index 1, with one entry. Its left sibling, page 1, has three entries, more than
  the minimum, and so has its right sibling. The entry that page 2 gets is 50, the first of
  the right sibling; the left sibling is as it was. \<^verbatim>\<open>RedistributeBrother\<close> looks at the left
  sibling under the test \<^verbatim>\<open>index - 1 > 0\<close>, which is false at index 1.

  After the insertion of 10, 20, 30, 40, 50, 60 the three leaves have two entries each.
  \<open>Remove(30)\<close> leaves page 2 with one entry, no sibling can give one, and page 2 can be merged
  with the left one as with the right one. \<^verbatim>\<open>MergeBrother\<close> has the same test, goes to the
  right sibling, and the run ends in its \<^verbatim>\<open>assert\<close> on \<^verbatim>\<open>DeletePage\<close> of the right sibling, which
  \<^verbatim>\<open>RedistributeBrother\<close> has left pinned. From index 2 the left sibling is taken: after
  \<open>Remove(50)\<close> on the same tree page 2 holds 30, 40, 60 and page 4 is gone.
\<close>

theorem rebalance_skips_left_sibling:
  "GetMinSize (Leaf_Init zeroed 1 3 4) = 2 \<and>
   ebind (Insert_all 10 (BPlusTree_new (header_pool 10 2) 4 4) [10, 20, 30, 40, 50, 60, 70, 15])
     (\<lambda>t. ebind (Remove 10 t 30)
        (\<lambda>t'. Inr (resident_internals t, resident_leaves t,
                    resident_internals t', resident_leaves t')))
   = Inr ([(3, - 1, [(0, 1), (30, 2), (50, 4)])],
          [(4, 3, - 1, [(50, 50), (60, 60), (70, 70)]),
           (2, 3, 4, [(30, 30), (40, 40)]),
           (1, 3, 2, [(10, 10), (15, 15), (20, 20)])],
          [(3, - 1, [(0, 1), (30, 2), (60, 4)])],
          [(4, 3, - 1, [(60, 60), (70, 70)]),
           (2, 3, 4, [(40, 40), (50, 50)]),
           (1, 3, 2, [(10, 10), (15, 15), (20, 20)])]) \<and>
   ebind (Insert_all 10 (BPlusTree_new (header_pool 10 2) 4 4) [10, 20, 30, 40, 50, 60])
     (\<lambda>t. ebind (Remove 10 t 30) (\<lambda>t'. Inr (resident_leaves t, resident_leaves t')))
   = Inl AssertionFailed \<and>
   ebind (Insert_all 10 (BPlusTree_new (header_pool 10 2) 4 4) [10, 20, 30, 40, 50, 60])
     (\<lambda>t. ebind (Remove 10 t 50)
        (\<lambda>t'. Inr (resident_leaves t, resident_internals t', resident_leaves t')))
   = Inr ([(4, 3, - 1, [(50, 50), (60, 60)]), (2, 3, 4, [(30, 30), (40, 40)]),
           (1, 3, 2, [(10, 10), (20, 20)])],
          [(3, - 1, [(0, 1), (30, 2)])],
          [(2, 3, 4, [(30, 30), (40, 40), (60, 60)]), (1, 3, 2, [(10, 10), (20, 20)])])"
  by (simp add: pool_eval page_eval tree_eval remove_eval del: tree_rec_simps remove_rec_simps
      cong: ebind_weak_cong Let_weak_cong prod.case_cong_weak)

end
